theory Spec2Isabelle
  imports Complex_Main "HOL-Library.Log_Nat" "HOL-Library.Sublist"
begin

section \<open>Python values\<close>

text \<open>
  A Python \<open>str\<close> is a sequence of Unicode code points; \<open>len\<close> counts code points.
  The CJK block tested by \<open>count_tokens\<close> lies above the range of an 8-bit character,
  so a string is a list of code points.  \<open>U ''...''\<close> writes an ASCII literal.
\<close>

type_synonym ustr = "nat list"

abbreviation U :: "string \<Rightarrow> ustr" where
  "U s \<equiv> map of_char s"

text \<open>
  The exceptions the modelled code can raise.  \<open>ClientError\<close> is any failure of the
  generative client.  \<open>NotModelled\<close> is no exception of the program: it marks an input
  on which the model stops because it does not represent the values the program would
  build (a JSON number with a fraction, \<open>str()\<close> of a list).
\<close>

datatype py_error =
    UnboundLocalError
  | OverflowError
  | ZeroDivisionError
  | AttributeError
  | TypeError
  | ValueError
  | KeyError
  | JSONDecodeError
  | UnicodeEncodeError
  | OSError
  | ClientNotInitialized
  | ClientError
  | NotModelled

subsection \<open>Floats\<close>

text \<open>
  A finite Python \<open>float\<close> is the rational number it denotes.  Every float operation
  rounds its exact result to the nearest binary64 number, ties to even (\<open>b64\<close>):
  53 significant bits, the exponent of the last place never below \<open>-1074\<close>.  A result
  of magnitude \<open>2^1024\<close> or more is Python's \<open>inf\<close>; \<open>int\<close> of it raises
  \<open>OverflowError\<close>, and so does a true division of integers that reaches it.
\<close>

definition round_half_even :: "rat \<Rightarrow> int" where
  "round_half_even q =
     (let f = \<lfloor>q\<rfloor>; d = q - of_int f
      in if d < 1 / 2 then f else if 1 / 2 < d then f + 1 else if even f then f else f + 1)"

definition expo :: "rat \<Rightarrow> int" where
  \<comment> \<open>for \<open>0 < x\<close>: the \<open>e\<close> with \<open>2^e \<le> x < 2^(e+1)\<close>\<close>
  "expo x = (if 1 \<le> x then int (floorlog 2 (nat \<lfloor>x\<rfloor>)) - 1
             else - int (floorlog 2 (nat (\<lceil>1 / x\<rceil> - 1))))"

definition b64 :: "rat \<Rightarrow> rat" where
  "b64 x = (if x = 0 then 0
            else let u = 2 powi (max (expo \<bar>x\<bar>) (- 1022) - 52)
                 in of_int (round_half_even (x / u)) * u)"

definition float_inf :: "rat \<Rightarrow> bool" where
  "float_inf x = (2 ^ 1024 \<le> \<bar>x\<bar>)"

definition float_of_int :: "int \<Rightarrow> rat" where
  "float_of_int n = b64 (of_int n)"

definition fmul :: "rat \<Rightarrow> rat \<Rightarrow> rat" where
  "fmul x y = b64 (x * y)"

definition fadd :: "rat \<Rightarrow> rat \<Rightarrow> rat" where
  "fadd x y = b64 (x + y)"

definition fsub :: "rat \<Rightarrow> rat \<Rightarrow> rat" where
  "fsub x y = b64 (x - y)"

definition trunc :: "rat \<Rightarrow> int" where
  \<comment> \<open>\<open>int(x)\<close> of a finite float: rounds toward zero\<close>
  "trunc x = (if 0 \<le> x then \<lfloor>x\<rfloor> else \<lceil>x\<rceil>)"

definition py_int :: "rat \<Rightarrow> py_error + int" where
  "py_int x = (if float_inf x then Inl OverflowError else Inr (trunc x))"

definition py_truediv :: "int \<Rightarrow> int \<Rightarrow> py_error + rat" where
  \<comment> \<open>\<open>a / b\<close> on two \<open>int\<close>s: the correctly rounded quotient\<close>
  "py_truediv a b =
     (if b = 0 then Inl ZeroDivisionError
      else let q = b64 (of_int a / of_int b)
           in if float_inf q then Inl OverflowError else Inr q)"

subsection \<open>The two regular expressions of \<open>count_tokens\<close>\<close>

definition is_cjk :: "nat \<Rightarrow> bool" where
  \<comment> \<open>the class \<open>[U+4E00-U+9FFF]\<close>\<close>
  "is_cjk c = (0x4E00 \<le> c \<and> c \<le> 0x9FFF)"

definition ascii_letter :: "nat \<Rightarrow> bool" where
  \<comment> \<open>\<open>[a-zA-Z]\<close>\<close>
  "ascii_letter c = ((0x41 \<le> c \<and> c \<le> 0x5A) \<or> (0x61 \<le> c \<and> c \<le> 0x7A))"

definition ascii_digit :: "nat \<Rightarrow> bool" where
  "ascii_digit c = (0x30 \<le> c \<and> c \<le> 0x39)"

text \<open>
  \<open>\w\<close> on a \<open>str\<close> pattern: underscore or a character that \<open>str.isalnum\<close> accepts.
  On ASCII that is letters and digits; beyond ASCII it is a table of the interpreter's
  Unicode database, which is a parameter \<open>ud\<close> of the model.
\<close>

definition is_word :: "(nat \<Rightarrow> bool) \<Rightarrow> nat \<Rightarrow> bool" where
  "is_word ud c =
     (if c < 128 then ascii_letter c \<or> ascii_digit c \<or> c = 0x5F else ud c)"

definition at_boundary :: "(nat \<Rightarrow> bool) \<Rightarrow> ustr \<Rightarrow> bool" where
  \<comment> \<open>\<open>\b\<close> after a word character: the text ends or a non-word character follows\<close>
  "at_boundary ud rest = (case rest of [] \<Rightarrow> True | d # _ \<Rightarrow> \<not> is_word ud d)"

text \<open>
  \<open>re.findall(r'\b[a-zA-Z]+\b', text)\<close>, scanning left to right; \<open>prev\<close> says whether
  the character before the current position is a word character.  A match can only
  start where \<open>prev\<close> is false and a letter stands, must take the whole run of letters
  (inside the run there is no boundary), and needs a boundary after the run.  After a
  match the scan resumes behind it; after a failure, one character further.
\<close>

function findall_words :: "(nat \<Rightarrow> bool) \<Rightarrow> bool \<Rightarrow> ustr \<Rightarrow> ustr list" where
  "findall_words ud prev [] = []"
| "findall_words ud prev (c # cs) =
     (if \<not> prev \<and> ascii_letter c \<and> at_boundary ud (dropWhile ascii_letter cs)
      then (c # takeWhile ascii_letter cs) # findall_words ud True (dropWhile ascii_letter cs)
      else findall_words ud (is_word ud c) cs)"
  by pat_completeness auto
termination
  by (relation "measure (\<lambda>(ud, prev, s). length s)")
     (auto simp: length_dropWhile_le less_Suc_eq_le)

section \<open>The compressor object\<close>

text \<open>
  The generative collaborator is reached through \<open>self.client\<close>.  The wording of the
  prompts is outside the model: a request carries what the prompt is built from, and the
  client answers with the text of the first choice or fails.
\<close>

datatype target_modules = ModuleList "ustr list" | ModuleStr ustr

datatype llm_request =
    CompressDocument ustr target_modules int ustr
  | CompressSection ustr int

type_synonym llm = "llm_request \<Rightarrow> py_error + ustr"

text \<open>
  The object: \<open>client\<close> and \<open>tokenizer\<close> are its attributes.  Two things the methods
  use are carried with it: the table behind \<open>str.isalnum\<close>, and the method
  \<open>_compress_text_by_tf_idf\<close>, whose body is the XML parser and the sentence scorer of
  other libraries (it returns the document with the agent texts summarised, or raises).
\<close>

record compressor =
  client :: "llm option"
  tokenizer :: "(ustr \<Rightarrow> nat list) option"
  unicode_alnum :: "nat \<Rightarrow> bool"
  compress_text_by_tf_idf :: "ustr \<Rightarrow> rat \<Rightarrow> py_error + ustr"

text \<open>
  \<open>__init__\<close>: a client exists only for a non-blank API key (and only when the package
  loads, which \<open>mk_client\<close> decides); a tokenizer exists only beside a client.
\<close>

definition py_space :: "nat \<Rightarrow> bool" where
  \<comment> \<open>\<open>str.isspace\<close>, the characters \<open>str.strip()\<close> removes\<close>
  "py_space c = (c \<in> {0x09, 0x0A, 0x0B, 0x0C, 0x0D, 0x1C, 0x1D, 0x1E, 0x1F, 0x20, 0x85, 0xA0,
                      0x1680, 0x2028, 0x2029, 0x202F, 0x205F, 0x3000}
                 \<or> (0x2000 \<le> c \<and> c \<le> 0x200A))"

definition strip :: "ustr \<Rightarrow> ustr" where
  "strip s = rev (dropWhile py_space (rev (dropWhile py_space s)))"

definition init ::
  "ustr option \<Rightarrow> llm option \<Rightarrow> (ustr \<Rightarrow> nat list) option \<Rightarrow> (nat \<Rightarrow> bool)
     \<Rightarrow> (ustr \<Rightarrow> rat \<Rightarrow> py_error + ustr) \<Rightarrow> compressor" where
  "init api_key mk_client mk_tokenizer ud tf_idf =
     (let cl = (case api_key of
                  None \<Rightarrow> None
                | Some k \<Rightarrow> if k \<noteq> [] \<and> strip k \<noteq> [] then mk_client else None)
      in \<lparr>client = cl,
          tokenizer = (if cl \<noteq> None then mk_tokenizer else None),
          unicode_alnum = ud,
          compress_text_by_tf_idf = tf_idf\<rparr>)"

text \<open>
  A compressor without API key, for the examples: no client, no tokenizer, no
  alphanumeric characters beyond ASCII other than the CJK block, and the TF-IDF stage
  left as the identity.
\<close>

definition offline :: compressor where
  "offline = init None None None is_cjk (\<lambda>content ratio. Inr content)"

subsection \<open>Token estimator\<close>

definition count_tokens :: "compressor \<Rightarrow> ustr \<Rightarrow> int" where
  "count_tokens self text =
     (case tokenizer self of
        Some encode \<Rightarrow> int (length (encode text))
      | None \<Rightarrow>
          (let chinese_chars = int (length (filter is_cjk text));
               words = findall_words (unicode_alnum self) False text;
               english_words = int (length words);
               other_chars = int (length text) - chinese_chars - sum_list (map (int \<circ> length) words)
           in trunc (fadd (fadd (fmul (float_of_int chinese_chars) (3 / 2)) (float_of_int english_words))
                          (fmul (float_of_int other_chars) (1 / 2)))))"

text \<open>
  The estimate as the specification words it, in exact arithmetic: one and a half per CJK
  character, one per Latin word, a half per remaining character, rounded down.
\<close>

definition heuristic_estimate_spec :: "(nat \<Rightarrow> bool) \<Rightarrow> ustr \<Rightarrow> int" where
  "heuristic_estimate_spec ud text =
     (let chinese_char_count = length (filter is_cjk text);
          latin_words = findall_words ud False text;
          latin_word_count = length latin_words;
          remaining_char_count =
            int (length text) - int chinese_char_count - int (sum_list (map length latin_words))
      in \<lfloor>(3 / 2) * of_nat chinese_char_count + 1 * of_nat latin_word_count
           + (1 / 2) * of_int remaining_char_count :: rat\<rfloor>)"

section \<open>String operations\<close>

fun contains :: "ustr \<Rightarrow> ustr \<Rightarrow> bool" where
  \<comment> \<open>\<open>sub in s\<close>\<close>
  "contains [] sub = (sub = [])"
| "contains (c # cs) sub = (prefix sub (c # cs) \<or> contains cs sub)"

fun find_str :: "ustr \<Rightarrow> ustr \<Rightarrow> int" where
  \<comment> \<open>\<open>s.find(sub)\<close>: the first index, or \<open>-1\<close>\<close>
  "find_str [] sub = (if sub = [] then 0 else - 1)"
| "find_str (c # cs) sub =
     (if prefix sub (c # cs) then 0
      else let i = find_str cs sub in if i < 0 then - 1 else i + 1)"

text \<open>
  \<open>s.replace(old, new)\<close> replaces the occurrences of \<open>old\<close> from left to right, without
  overlap; \<open>skip\<close> counts the characters of an occurrence still to pass.
\<close>

fun replace_from :: "nat \<Rightarrow> ustr \<Rightarrow> ustr \<Rightarrow> ustr \<Rightarrow> ustr" where
  "replace_from skip [] old new = []"
| "replace_from skip (c # cs) old new =
     (if 0 < skip then replace_from (skip - 1) cs old new
      else if prefix old (c # cs) then new @ replace_from (length old - 1) cs old new
      else c # replace_from 0 cs old new)"

definition replace :: "ustr \<Rightarrow> ustr \<Rightarrow> ustr \<Rightarrow> ustr" where
  "replace s old new =
     (if old = [] then new @ concat (map (\<lambda>c. c # new) s) else replace_from 0 s old new)"

definition slice :: "ustr \<Rightarrow> int \<Rightarrow> int \<Rightarrow> ustr" where
  \<comment> \<open>\<open>s[a:b]\<close>; a negative bound counts from the end\<close>
  "slice s a b =
     (let n = int (length s);
          lo = (if a < 0 then max 0 (n + a) else min a n);
          hi = (if b < 0 then max 0 (n + b) else min b n)
      in drop (nat lo) (take (nat hi) s))"

definition slice_from :: "ustr \<Rightarrow> int \<Rightarrow> ustr" where
  \<comment> \<open>\<open>s[a:]\<close>\<close>
  "slice_from s a = slice s a (int (length s))"

definition slice_to :: "ustr \<Rightarrow> int \<Rightarrow> ustr" where
  \<comment> \<open>\<open>s[:b]\<close>\<close>
  "slice_to s b = slice s 0 b"

fun join :: "ustr \<Rightarrow> ustr list \<Rightarrow> ustr" where
  \<comment> \<open>\<open>sep.join(xs)\<close>\<close>
  "join sep [] = []"
| "join sep [x] = x"
| "join sep (x # y # ys) = x @ sep @ join sep (y # ys)"

subsection \<open>\<open>_is_xml_content\<close>\<close>

text \<open>
  \<open>re.search(r'<[^>]+>[^<]*</[^>]+>', content)\<close>.  Each piece of the pattern is forced:
  after the opening bracket the first closing bracket must come after at least one
  character, the text up to the next opening bracket is skipped, a slash must follow
  it, and again a first closing bracket after at least one character.  A negated class
  also matches a line break.
\<close>

definition tag_rest :: "ustr \<Rightarrow> ustr option" where
  \<comment> \<open>\<open>[^>]+>\<close> at the head of \<open>s\<close>; what follows the closing bracket\<close>
  "tag_rest s =
     (if takeWhile (\<lambda>c. c \<noteq> 0x3E) s \<noteq> [] \<and> dropWhile (\<lambda>c. c \<noteq> 0x3E) s \<noteq> []
      then Some (tl (dropWhile (\<lambda>c. c \<noteq> 0x3E) s)) else None)"

definition element_at :: "ustr \<Rightarrow> bool" where
  "element_at s =
     (case s of
        [] \<Rightarrow> False
      | c # r \<Rightarrow>
          c = 0x3C \<and>
          (case tag_rest r of
             None \<Rightarrow> False
           | Some r1 \<Rightarrow>
               (case dropWhile (\<lambda>c. c \<noteq> 0x3C) r1 of
                  lt # sl # r2 \<Rightarrow> sl = 0x2F \<and> tag_rest r2 \<noteq> None
                | _ \<Rightarrow> False)))"

fun search_element :: "ustr \<Rightarrow> bool" where
  "search_element [] = False"
| "search_element (c # cs) = (element_at (c # cs) \<or> search_element cs)"

definition is_xml_content :: "ustr \<Rightarrow> bool" where
  "is_xml_content content =
     (let content_stripped = strip content
      in prefix (U ''<?xml'') content_stripped
         \<or> prefix (U ''<context>'') content_stripped
         \<or> (contains content (U ''<message'') \<and> contains content (U ''role=''))
         \<or> search_element content)"

section \<open>The \<open>json\<close> module\<close>

text \<open>
  The values \<open>json.loads\<close> builds, without floats.  An object is the list of its items
  in insertion order, each key once, as a Python \<open>dict\<close> keeps them.
\<close>

datatype json =
    JNull
  | JBool bool
  | JInt int
  | JString ustr
  | JArray "json list"
  | JObject "(ustr \<times> json) list"

fun dict_get :: "(ustr \<times> json) list \<Rightarrow> ustr \<Rightarrow> json option" where
  \<comment> \<open>\<open>d.get(k)\<close>, \<open>None\<close> for a missing key\<close>
  "dict_get [] k = None"
| "dict_get ((k', v) # kvs) k = (if k' = k then Some v else dict_get kvs k)"

fun dict_set :: "(ustr \<times> json) list \<Rightarrow> ustr \<Rightarrow> json \<Rightarrow> (ustr \<times> json) list" where
  \<comment> \<open>\<open>d[k] = v\<close>: a known key keeps its place\<close>
  "dict_set [] k v = [(k, v)]"
| "dict_set ((k', v') # kvs) k v = (if k' = k then (k, v) # kvs else (k', v') # dict_set kvs k v)"

subsection \<open>\<open>json.dumps(v, ensure_ascii=False)\<close>\<close>

function decimal_nat :: "nat \<Rightarrow> ustr" where
  "decimal_nat n = (if n < 10 then [0x30 + n] else decimal_nat (n div 10) @ [0x30 + n mod 10])"
  by pat_completeness auto
termination
  by (relation "measure id") auto

declare decimal_nat.simps [simp del]

definition decimal :: "int \<Rightarrow> ustr" where
  "decimal i = (if i < 0 then 0x2D # decimal_nat (nat (- i)) else decimal_nat (nat i))"

definition hex_digit :: "nat \<Rightarrow> nat" where
  "hex_digit d = (if d < 10 then 0x30 + d else 0x61 + (d - 10))"

definition escape_char :: "nat \<Rightarrow> ustr" where
  \<comment> \<open>quote, backslash and the control characters are escaped, nothing else\<close>
  "escape_char c =
     (if c = 0x22 then [0x5C, 0x22]
      else if c = 0x5C then [0x5C, 0x5C]
      else if c = 0x0A then [0x5C, 0x6E]
      else if c = 0x0D then [0x5C, 0x72]
      else if c = 0x09 then [0x5C, 0x74]
      else if c = 0x08 then [0x5C, 0x62]
      else if c = 0x0C then [0x5C, 0x66]
      else if c < 0x20 then [0x5C, 0x75, 0x30, 0x30, hex_digit (c div 16), hex_digit (c mod 16)]
      else [c])"

definition dumps_string :: "ustr \<Rightarrow> ustr" where
  "dumps_string s = 0x22 # concat (map escape_char s) @ [0x22]"

fun json_dumps :: "json \<Rightarrow> ustr" where
  "json_dumps JNull = U ''null''"
| "json_dumps (JBool b) = (if b then U ''true'' else U ''false'')"
| "json_dumps (JInt i) = decimal i"
| "json_dumps (JString s) = dumps_string s"
| "json_dumps (JArray vs) = U ''['' @ join (U '', '') (map json_dumps vs) @ U '']''"
| "json_dumps (JObject kvs) =
     U ''{'' @ join (U '', '') (map (\<lambda>(k, v). dumps_string k @ U '': '' @ json_dumps v) kvs) @ U ''}''"

subsection \<open>\<open>json.loads\<close>\<close>

definition json_ws :: "nat \<Rightarrow> bool" where
  "json_ws c = (c = 0x20 \<or> c = 0x09 \<or> c = 0x0A \<or> c = 0x0D)"

definition skip_ws :: "ustr \<Rightarrow> ustr" where
  "skip_ws s = dropWhile json_ws s"

definition hex_val :: "nat \<Rightarrow> nat option" where
  "hex_val c =
     (if 0x30 \<le> c \<and> c \<le> 0x39 then Some (c - 0x30)
      else if 0x61 \<le> c \<and> c \<le> 0x66 then Some (c - 0x57)
      else if 0x41 \<le> c \<and> c \<le> 0x46 then Some (c - 0x37)
      else None)"

definition hex4 :: "ustr \<Rightarrow> nat option" where
  \<comment> \<open>the value of four hexadecimal digits at the head of \<open>s\<close>\<close>
  "hex4 s =
     (case s of
        a # b # c # d # _ \<Rightarrow>
          (case (hex_val a, hex_val b, hex_val c, hex_val d) of
             (Some x, Some y, Some z, Some w) \<Rightarrow> Some (((x * 16 + y) * 16 + z) * 16 + w)
           | _ \<Rightarrow> None)
      | _ \<Rightarrow> None)"

definition escape_u :: "ustr \<Rightarrow> (nat \<times> nat) option" where
  \<comment> \<open>after the escape letter \<open>u\<close>: the code point and the characters read; a high surrogate takes a low
      surrogate escape that follows it\<close>
  "escape_u r =
     (case hex4 r of
        None \<Rightarrow> None
      | Some u \<Rightarrow>
          if 0xD800 \<le> u \<and> u \<le> 0xDBFF \<and> prefix [0x5C, 0x75] (drop 4 r) then
            (case hex4 (drop 6 r) of
               Some u2 \<Rightarrow>
                 if 0xDC00 \<le> u2 \<and> u2 \<le> 0xDFFF
                 then Some (0x10000 + (u - 0xD800) * 0x400 + (u2 - 0xDC00), 10)
                 else Some (u, 4)
             | None \<Rightarrow> Some (u, 4))
          else Some (u, 4))"

definition unescape :: "nat \<Rightarrow> nat option" where
  "unescape e =
     (if e = 0x22 then Some 0x22
      else if e = 0x5C then Some 0x5C
      else if e = 0x2F then Some 0x2F
      else if e = 0x62 then Some 0x08
      else if e = 0x66 then Some 0x0C
      else if e = 0x6E then Some 0x0A
      else if e = 0x72 then Some 0x0D
      else if e = 0x74 then Some 0x09
      else None)"

text \<open>
  The body of a string, behind the opening quote: the decoded characters and the text
  behind the closing quote.  A raw control character ends the parse (strict mode).
\<close>

fun scan_string :: "ustr \<Rightarrow> (ustr \<times> ustr) option" where
  "scan_string [] = None"
| "scan_string (c # cs) =
     (if c = 0x22 then Some ([], cs)
      else if c = 0x5C then
        (case cs of
           [] \<Rightarrow> None
         | e # r \<Rightarrow>
             if e = 0x75 then
               (case escape_u r of
                  None \<Rightarrow> None
                | Some (u, n) \<Rightarrow>
                    (case scan_string (drop n r) of
                       None \<Rightarrow> None
                     | Some (s, rest) \<Rightarrow> Some (u # s, rest)))
             else
               (case unescape e of
                  None \<Rightarrow> None
                | Some ch \<Rightarrow>
                    (case scan_string r of
                       None \<Rightarrow> None
                     | Some (s, rest) \<Rightarrow> Some (ch # s, rest))))
      else if c < 0x20 then None
      else (case scan_string cs of
              None \<Rightarrow> None
            | Some (s, rest) \<Rightarrow> Some (c # s, rest)))"

definition digits_value :: "ustr \<Rightarrow> nat" where
  "digits_value ds = foldl (\<lambda>acc d. acc * 10 + (d - 0x30)) 0 ds"

text \<open>
  A number: \<open>-?(0|[1-9][0-9]*)\<close>.  When a fraction or an exponent follows, Python
  builds a float, which the model does not represent.
\<close>

definition parse_number :: "ustr \<Rightarrow> py_error + (json \<times> ustr)" where
  "parse_number s =
     (let neg = (s \<noteq> [] \<and> hd s = 0x2D);
          body = (if neg then tl s else s);
          ds = (if body \<noteq> [] \<and> hd body = 0x30 then [0x30] else takeWhile ascii_digit body);
          rest = drop (length ds) body
      in if ds = [] then Inl JSONDecodeError
         else if (case rest of
                    d # e # _ \<Rightarrow> (d = 0x2E \<and> ascii_digit e)
                       \<or> ((d = 0x65 \<or> d = 0x45) \<and> (ascii_digit e \<or>
                            ((e = 0x2B \<or> e = 0x2D) \<and> (case tl (tl rest) of g # _ \<Rightarrow> ascii_digit g | [] \<Rightarrow> False))))
                  | _ \<Rightarrow> False)
         then Inl NotModelled
         else Inr (JInt (if neg then - int (digits_value ds) else int (digits_value ds)), rest))"

text \<open>
  The recursive descent of the scanner; \<open>fuel\<close> bounds the number of calls and
  \<open>json_loads\<close> supplies more than any text can use.  \<open>parse_array\<close> starts at an element,
  \<open>parse_object\<close> at the quote of a key.
\<close>

fun parse_value :: "nat \<Rightarrow> ustr \<Rightarrow> py_error + (json \<times> ustr)"
  and parse_array :: "nat \<Rightarrow> ustr \<Rightarrow> py_error + (json list \<times> ustr)"
  and parse_object :: "nat \<Rightarrow> ustr \<Rightarrow> py_error + ((ustr \<times> json) list \<times> ustr)" where
  "parse_value 0 s = Inl JSONDecodeError"
| "parse_value (Suc fuel) s =
     (case s of
        [] \<Rightarrow> Inl JSONDecodeError
      | c # cs \<Rightarrow>
          if c = 0x22 then
            (case scan_string cs of
               None \<Rightarrow> Inl JSONDecodeError
             | Some (str, r) \<Rightarrow> Inr (JString str, r))
          else if c = 0x7B then
            (case skip_ws cs of
               [] \<Rightarrow> Inl JSONDecodeError
             | d # r \<Rightarrow>
                 if d = 0x7D then Inr (JObject [], r)
                 else (case parse_object fuel (d # r) of
                         Inl e \<Rightarrow> Inl e
                       | Inr (kvs, r') \<Rightarrow> Inr (JObject kvs, r')))
          else if c = 0x5B then
            (case skip_ws cs of
               [] \<Rightarrow> Inl JSONDecodeError
             | d # r \<Rightarrow>
                 if d = 0x5D then Inr (JArray [], r)
                 else (case parse_array fuel (d # r) of
                         Inl e \<Rightarrow> Inl e
                       | Inr (vs, r') \<Rightarrow> Inr (JArray vs, r')))
          else if prefix (U ''null'') s then Inr (JNull, drop 4 s)
          else if prefix (U ''true'') s then Inr (JBool True, drop 4 s)
          else if prefix (U ''false'') s then Inr (JBool False, drop 5 s)
          else if prefix (U ''NaN'') s \<or> prefix (U ''Infinity'') s \<or> prefix (U ''-Infinity'') s
          then Inl NotModelled
          else parse_number s)"
| "parse_array 0 s = Inl JSONDecodeError"
| "parse_array (Suc fuel) s =
     (case parse_value fuel s of
        Inl e \<Rightarrow> Inl e
      | Inr (v, r) \<Rightarrow>
          (case skip_ws r of
             [] \<Rightarrow> Inl JSONDecodeError
           | d # r' \<Rightarrow>
               if d = 0x2C then
                 (case parse_array fuel (skip_ws r') of
                    Inl e \<Rightarrow> Inl e
                  | Inr (vs, r'') \<Rightarrow> Inr (v # vs, r''))
               else if d = 0x5D then Inr ([v], r')
               else Inl JSONDecodeError))"
| "parse_object 0 s = Inl JSONDecodeError"
| "parse_object (Suc fuel) s =
     (case s of
        [] \<Rightarrow> Inl JSONDecodeError
      | q # cs \<Rightarrow>
          if q \<noteq> 0x22 then Inl JSONDecodeError
          else
            (case scan_string cs of
               None \<Rightarrow> Inl JSONDecodeError
             | Some (key, r) \<Rightarrow>
                 (case skip_ws r of
                    [] \<Rightarrow> Inl JSONDecodeError
                  | colon # r1 \<Rightarrow>
                      if colon \<noteq> 0x3A then Inl JSONDecodeError
                      else
                        (case parse_value fuel (skip_ws r1) of
                           Inl e \<Rightarrow> Inl e
                         | Inr (v, r2) \<Rightarrow>
                             (case skip_ws r2 of
                                [] \<Rightarrow> Inl JSONDecodeError
                              | d # r3 \<Rightarrow>
                                  if d = 0x2C then
                                    (case parse_object fuel (skip_ws r3) of
                                       Inl e \<Rightarrow> Inl e
                                     | Inr (kvs, r4) \<Rightarrow> Inr ((key, v) # kvs, r4))
                                  else if d = 0x7D then Inr ([(key, v)], r3)
                                  else Inl JSONDecodeError)))))"

text \<open>
  A repeated key keeps its first place and its last value.  \<open>parse_object\<close> returns the
  items as written; \<open>py_dict\<close> builds the \<open>dict\<close>, in every object of the value.
\<close>

fun py_dict :: "json \<Rightarrow> json" where
  "py_dict (JArray vs) = JArray (map py_dict vs)"
| "py_dict (JObject kvs) =
     JObject (foldl (\<lambda>d (k, v). dict_set d k v) [] (map (\<lambda>(k, v). (k, py_dict v)) kvs))"
| "py_dict v = v"

definition json_loads :: "ustr \<Rightarrow> py_error + json" where
  "json_loads s =
     (case parse_value (Suc (length s)) (skip_ws s) of
        Inl e \<Rightarrow> Inl e
      | Inr (v, rest) \<Rightarrow> if skip_ws rest = [] then Inr (py_dict v) else Inl JSONDecodeError)"

section \<open>Sectional history compression\<close>

text \<open>
  The methods return a \<open>dict\<close>.  The record holds the keys that the callers and the
  claims read, \<open>None\<close> where a return statement leaves the key out; \<open>message\<close> names
  the return statement.
\<close>

datatype outcome =
    BelowThreshold
  | InvalidJSONArray
  | FailedToParseJSON
  | NoItemsToCompress
  | SectionCompleted
  | NoHistorySection
  | NoEntries
  | AlreadyWithinTarget
  | CompressionCompleted
  | CompressionFailed

record result =
  compressed_content :: "ustr option"
  original_tokens :: "int option"
  compressed_tokens :: "int option"
  compression_ratio :: "rat option"
  success :: "bool option"
  message :: outcome

subsection \<open>\<open>_compress_json_history\<close>\<close>

definition is_user :: "json \<Rightarrow> bool" where
  \<comment> \<open>\<open>isinstance(item, dict) and item.get('role') == 'user'\<close>\<close>
  "is_user item =
     (case item of
        JObject d \<Rightarrow> dict_get d (U ''role'') = Some (JString (U ''user''))
      | _ \<Rightarrow> False)"

text \<open>
  Step 1, the loop from the last item to the first: \<open>used\<close> is \<open>preserve_tokens_used\<close>,
  \<open>n\<close> is \<open>preserve_items\<close>, and the loop breaks at the first item that does not fit.
\<close>

fun preserve_items :: "compressor \<Rightarrow> int \<Rightarrow> json list \<Rightarrow> int \<Rightarrow> nat \<Rightarrow> nat" where
  "preserve_items self preserve_last_tokens [] used n = n"
| "preserve_items self preserve_last_tokens (item # earlier) used n =
     (let item_tokens = count_tokens self (json_dumps item)
      in if used + item_tokens \<le> preserve_last_tokens
         then preserve_items self preserve_last_tokens earlier (used + item_tokens) (n + 1)
         else n)"

definition tentative_split_index :: "compressor \<Rightarrow> int \<Rightarrow> json list \<Rightarrow> nat" where
  "tentative_split_index self preserve_last_tokens data =
     length data - preserve_items self preserve_last_tokens (rev data) 0 0"

text \<open>
  Step 2.  The forward loop sets \<open>final_split_index\<close> to the first user item at or
  behind the tentative index.  The backward loop runs when \<open>final_split_index\<close> still
  equals the tentative index, and takes the nearest user item before it.
\<close>

definition final_split_index :: "json list \<Rightarrow> nat \<Rightarrow> nat" where
  "final_split_index data tentative =
     (let forward =
            (case List.find (\<lambda>i. is_user (data ! i)) [tentative..<length data] of
               Some i \<Rightarrow> i
             | None \<Rightarrow> tentative)
      in if forward = tentative \<and> 0 < tentative
         then (case List.find (\<lambda>i. is_user (data ! i)) (rev [0..<tentative]) of
                 Some i \<Rightarrow> i
               | None \<Rightarrow> forward)
         else forward)"

definition keep_first :: "json list \<Rightarrow> rat \<Rightarrow> py_error + json list" where
  \<comment> \<open>\<open>items[:max(1, int(len(items) * compression_ratio))]\<close>\<close>
  "keep_first items ratio =
     (case py_int (fmul (float_of_int (int (length items))) ratio) of
        Inl e \<Rightarrow> Inl e
      | Inr k \<Rightarrow> Inr (take (nat (max 1 k)) items))"

definition compress_head :: "compressor \<Rightarrow> json list \<Rightarrow> rat \<Rightarrow> py_error + json list" where
  \<comment> \<open>the head without a client, or after the client failed, is cut by \<open>keep_first\<close>\<close>
  "compress_head self items_to_compress ratio =
     (let content_to_compress = json_dumps (JArray items_to_compress);
          compress_tokens = count_tokens self content_to_compress
      in case py_int (fmul (float_of_int compress_tokens) ratio) of
           Inl e \<Rightarrow> Inl e
         | Inr target_tokens \<Rightarrow>
             (case client self of
                None \<Rightarrow> keep_first items_to_compress ratio
              | Some llm \<Rightarrow>
                  (case llm (CompressSection content_to_compress target_tokens) of
                     Inr text \<Rightarrow>
                       Inr [JObject [(U ''role'', JString (U ''system'')),
                                     (U ''message'', JString (strip text))]]
                   | Inl e \<Rightarrow> keep_first items_to_compress ratio)))"

definition compress_items :: "compressor \<Rightarrow> ustr \<Rightarrow> int \<Rightarrow> rat \<Rightarrow> json list \<Rightarrow> py_error + result" where
  "compress_items self sectional_content preserve_last_tokens ratio data =
     (let tokens = count_tokens self sectional_content;
          tentative = tentative_split_index self preserve_last_tokens data;
          final = final_split_index data tentative;
          items_to_compress = take final data;
          items_to_preserve = drop final data
      in if items_to_compress = [] then
           Inr \<lparr>compressed_content = Some sectional_content, original_tokens = Some tokens,
                compressed_tokens = Some tokens, compression_ratio = Some 1, success = None,
                message = NoItemsToCompress\<rparr>
         else
           (case compress_head self items_to_compress ratio of
              Inl e \<Rightarrow> Inl e
            | Inr compressed_items \<Rightarrow>
                (let final_content = json_dumps (JArray (compressed_items @ items_to_preserve));
                     final_tokens = count_tokens self final_content
                 in case py_truediv final_tokens tokens of
                      Inl e \<Rightarrow> Inl e
                    | Inr q \<Rightarrow>
                        Inr \<lparr>compressed_content = Some final_content,
                             original_tokens = Some tokens,
                             compressed_tokens = Some final_tokens,
                             compression_ratio = Some (fsub 1 q), success = Some True,
                             message = SectionCompleted\<rparr>)))"

definition compress_json_history :: "compressor \<Rightarrow> ustr \<Rightarrow> int \<Rightarrow> rat \<Rightarrow> py_error + result" where
  "compress_json_history self sectional_content preserve_last_tokens ratio =
     (let tokens = count_tokens self sectional_content
      in if tokens \<le> preserve_last_tokens then
           Inr \<lparr>compressed_content = Some sectional_content, original_tokens = Some tokens,
                compressed_tokens = Some tokens, compression_ratio = Some 1, success = None,
                message = BelowThreshold\<rparr>
         else
           (case json_loads sectional_content of
              Inl JSONDecodeError \<Rightarrow>
                Inr \<lparr>compressed_content = Some sectional_content, original_tokens = None,
                     compressed_tokens = None, compression_ratio = None, success = None,
                     message = FailedToParseJSON\<rparr>
            | Inl e \<Rightarrow> Inl e
            | Inr (JArray data) \<Rightarrow>
                compress_items self sectional_content preserve_last_tokens ratio data
            | Inr _ \<Rightarrow>
                Inr \<lparr>compressed_content = Some sectional_content, original_tokens = None,
                     compressed_tokens = None, compression_ratio = None, success = None,
                     message = InvalidJSONArray\<rparr>))"

subsection \<open>\<open>_compress_xml_history\<close>\<close>

text \<open>
  \<open>re.findall(r'<entry[^>]*role="([^"]*)"[^>]*>(.*?)</entry>', history, re.DOTALL)\<close>.
  Behind \<open><entry\<close> the first class runs up to the first closing bracket and gives
  characters back until \<open>role="\<close> follows, so the occurrences of \<open>role="\<close> in that run
  are tried from the last to the first.  The role runs to the next quote, the second
  class to the next closing bracket, the message to the next \<open></entry>\<close>; an occurrence
  for which one of them is missing is given up.
\<close>

fun first_some :: "('a \<Rightarrow> 'b option) \<Rightarrow> 'a list \<Rightarrow> 'b option" where
  "first_some f [] = None"
| "first_some f (x # xs) = (case f x of Some y \<Rightarrow> Some y | None \<Rightarrow> first_some f xs)"

definition entry_with_role_at :: "ustr \<Rightarrow> nat \<Rightarrow> ((ustr \<times> ustr) \<times> nat) option" where
  \<comment> \<open>\<open>rest\<close> follows \<open><entry\<close>, and \<open>role="\<close> stands at \<open>j\<close> in it: the groups and the
      length of the match\<close>
  \<open>entry_with_role_at rest j =
     (let after = drop (j + 6) rest;
          role = takeWhile (\<lambda>c. c \<noteq> 0x22) after;
          quoted = dropWhile (\<lambda>c. c \<noteq> 0x22) after
      in if quoted = [] then None
         else
           (let attrs = takeWhile (\<lambda>c. c \<noteq> 0x3E) (tl quoted);
                closed = dropWhile (\<lambda>c. c \<noteq> 0x3E) (tl quoted)
            in if closed = [] then None
               else
                 (let body = tl closed; i = find_str body (U ''</entry>'')
                  in if i < 0 then None
                     else Some ((role, take (nat i) body),
                                6 + (j + 6) + length role + 1 + length attrs + 1 + nat i + 8))))\<close>

definition entry_at :: "ustr \<Rightarrow> ((ustr \<times> ustr) \<times> nat) option" where
  \<open>entry_at s =
     (if prefix (U ''<entry'') s then
        (let rest = drop 6 s;
             run = takeWhile (\<lambda>c. c \<noteq> 0x3E) rest
         in first_some (entry_with_role_at rest)
              (filter (\<lambda>j. prefix (U ''role="'') (drop j run)) (rev [0..<Suc (length run)])))
      else None)\<close>

fun findall_entries_from :: "nat \<Rightarrow> ustr \<Rightarrow> (ustr \<times> ustr) list" where
  "findall_entries_from skip [] = []"
| "findall_entries_from skip (c # cs) =
     (if 0 < skip then findall_entries_from (skip - 1) cs
      else (case entry_at (c # cs) of
              Some (e, n) \<Rightarrow> e # findall_entries_from (n - 1) cs
            | None \<Rightarrow> findall_entries_from 0 cs))"

definition findall_entries :: "ustr \<Rightarrow> (ustr \<times> ustr) list" where
  "findall_entries history_content = findall_entries_from 0 history_content"

definition history_item :: "ustr \<times> ustr \<Rightarrow> json" where
  \<comment> \<open>\<open>{"role": role, "message": message.strip()}\<close>\<close>
  "history_item e = JObject [(U ''role'', JString (fst e)), (U ''message'', JString (strip (snd e)))]"

definition py_str :: "json \<Rightarrow> py_error + ustr" where
  \<comment> \<open>a value inside an f-string\<close>
  "py_str v =
     (case v of
        JString s \<Rightarrow> Inr s
      | JNull \<Rightarrow> Inr (U ''None'')
      | JBool b \<Rightarrow> Inr (if b then U ''True'' else U ''False'')
      | JInt i \<Rightarrow> Inr (decimal i)
      | _ \<Rightarrow> Inl NotModelled)"

definition render_entry :: "json \<Rightarrow> py_error + ustr" where
  \<open>render_entry item =
     (case item of
        JObject d \<Rightarrow>
          (case py_str (case dict_get d (U ''role'') of Some v \<Rightarrow> v | None \<Rightarrow> JString (U ''system'')) of
             Inl e \<Rightarrow> Inl e
           | Inr role \<Rightarrow>
               (case py_str (case dict_get d (U ''message'') of Some v \<Rightarrow> v | None \<Rightarrow> JString []) of
                  Inl e \<Rightarrow> Inl e
                | Inr text \<Rightarrow>
                    Inr (U ''        <entry role="'' @ role @ U ''">'' @ text @ U ''</entry>'')))
      | _ \<Rightarrow> Inl AttributeError)\<close>

fun render_entries :: "json list \<Rightarrow> py_error + ustr list" where
  "render_entries [] = Inr []"
| "render_entries (item # items) =
     (case render_entry item of
        Inl e \<Rightarrow> Inl e
      | Inr line \<Rightarrow>
          (case render_entries items of
             Inl e \<Rightarrow> Inl e
           | Inr lines \<Rightarrow> Inr (line # lines)))"

definition iterate :: "json \<Rightarrow> py_error + json list" where
  \<comment> \<open>\<open>for item in v\<close>: a dict yields its keys, a string its characters\<close>
  "iterate v =
     (case v of
        JArray items \<Rightarrow> Inr items
      | JObject d \<Rightarrow> Inr (map (\<lambda>kv. JString (fst kv)) d)
      | JString s \<Rightarrow> Inr (map (\<lambda>c. JString [c]) s)
      | _ \<Rightarrow> Inl TypeError)"

definition rebuild_history :: "ustr \<Rightarrow> json list \<Rightarrow> py_error + ustr" where
  "rebuild_history xml_without_history compressed_history_array =
     (case render_entries compressed_history_array of
        Inl e \<Rightarrow> Inl e
      | Inr new_history_entries \<Rightarrow>
          (let new_history_section =
                 U ''<HISTORY>'' @ [0x0A] @ join [0x0A] new_history_entries @ [0x0A] @ U ''    </HISTORY>''
           in Inr (replace xml_without_history (U ''</context>'')
                     (U ''    '' @ new_history_section @ [0x0A] @ U ''</context>''))))"

definition compress_xml_history :: "compressor \<Rightarrow> ustr \<Rightarrow> int \<Rightarrow> rat \<Rightarrow> py_error + result" where
  "compress_xml_history self xml_content preserve_last_tokens ratio =
     (let history_start = find_str xml_content (U ''<HISTORY>'');
          history_end = find_str xml_content (U ''</HISTORY>'') + 10
      in if history_start = - 1 \<or> history_end = - 1 then
           Inr \<lparr>compressed_content = Some xml_content, original_tokens = None,
                compressed_tokens = None, compression_ratio = None, success = None,
                message = NoHistorySection\<rparr>
         else
           (let history_content = slice xml_content history_start history_end;
                xml_without_history =
                  slice_to xml_content history_start @ slice_from xml_content history_end;
                entries = findall_entries history_content
            in if entries = [] then
                 Inr \<lparr>compressed_content = Some xml_content, original_tokens = None,
                      compressed_tokens = None, compression_ratio = None, success = None,
                      message = NoEntries\<rparr>
               else
                 (let history_array = map history_item entries;
                      history_json_str = json_dumps (JArray history_array)
                  in case compress_json_history self history_json_str preserve_last_tokens ratio of
                       Inl e \<Rightarrow> Inl e
                     | Inr compression_result \<Rightarrow>
                         if success compression_result = Some False then Inr compression_result
                         else
                           (case compressed_content compression_result of
                              None \<Rightarrow> Inl KeyError
                            | Some compressed_history_str \<Rightarrow>
                                (case (case json_loads
                                              (if prefix (U ''['') (strip compressed_history_str)
                                               then compressed_history_str
                                               else U ''['' @ compressed_history_str @ U '']'') of
                                         Inl JSONDecodeError \<Rightarrow> Inr history_array
                                       | Inl e \<Rightarrow> Inl e
                                       | Inr v \<Rightarrow> iterate v) of
                                   Inl e \<Rightarrow> Inl e
                                 | Inr compressed_history_array \<Rightarrow>
                                     (case rebuild_history xml_without_history compressed_history_array of
                                        Inl e \<Rightarrow> Inl e
                                      | Inr final_xml \<Rightarrow>
                                          Inr (compression_result
                                                 \<lparr>compressed_content := Some final_xml,
                                                  compressed_tokens := Some (count_tokens self final_xml),
                                                  original_tokens := Some (count_tokens self xml_content)\<rparr>)))))))"

definition compress_sectional_history :: "compressor \<Rightarrow> ustr \<Rightarrow> int \<Rightarrow> rat \<Rightarrow> py_error + result" where
  "compress_sectional_history self content preserve_last_tokens ratio =
     (if is_xml_content content \<and> contains content (U ''<HISTORY>'')
      then compress_xml_history self content preserve_last_tokens ratio
      else compress_json_history self content preserve_last_tokens ratio)"

section \<open>The pipeline\<close>

subsection \<open>\<open>_compress_text_simple\<close>\<close>

text \<open>
  In the source the statements that split the content into lines, classify them, pack
  them and truncate the result are indented under \<open>if current_tokens <= max_tokens:\<close>,
  behind its \<open>return content\<close>, so no run reaches them.  The only statement after the
  \<open>if\<close> is \<open>return compressed_result\<close>, and \<open>compressed_result\<close> is assigned nowhere
  else: when the content is over the budget the method raises \<open>UnboundLocalError\<close>.
\<close>

definition compress_text_simple ::
  "compressor \<Rightarrow> ustr \<Rightarrow> target_modules \<Rightarrow> int \<Rightarrow> rat \<Rightarrow> py_error + ustr" where
  "compress_text_simple self content modules max_tokens ratio =
     (let current_tokens = count_tokens self content
      in if current_tokens \<le> max_tokens then Inr content else Inl UnboundLocalError)"

subsection \<open>\<open>compress_text\<close>\<close>

definition compress_text ::
  "compressor \<Rightarrow> ustr \<Rightarrow> target_modules \<Rightarrow> rat \<Rightarrow> ustr \<Rightarrow> py_error + result" where
  "compress_text self content modules ratio output_format =
     (case client self of
        None \<Rightarrow> Inl ClientNotInitialized
      | Some llm \<Rightarrow>
          (let tokens = count_tokens self content
           in case py_int (fmul (float_of_int tokens) ratio) of
                Inl e \<Rightarrow> Inl e
              | Inr target_tokens \<Rightarrow>
                  if tokens \<le> target_tokens then
                    Inr \<lparr>compressed_content = Some content, original_tokens = Some tokens,
                         compressed_tokens = Some tokens, compression_ratio = Some 1,
                         success = None, message = AlreadyWithinTarget\<rparr>
                  else
                    (case llm (CompressDocument content modules target_tokens output_format) of
                       Inl e \<Rightarrow>
                         Inr \<lparr>compressed_content = None, original_tokens = Some tokens,
                              compressed_tokens = None, compression_ratio = None,
                              success = Some False, message = CompressionFailed\<rparr>
                     | Inr text \<Rightarrow>
                         (let compressed = strip text;
                              new_tokens = count_tokens self compressed
                          in case py_truediv new_tokens tokens of
                               Inl e \<Rightarrow>
                                 Inr \<lparr>compressed_content = None, original_tokens = Some tokens,
                                      compressed_tokens = None, compression_ratio = None,
                                      success = Some False, message = CompressionFailed\<rparr>
                             | Inr q \<Rightarrow>
                                 Inr \<lparr>compressed_content = Some compressed,
                                      original_tokens = Some tokens,
                                      compressed_tokens = Some new_tokens,
                                      compression_ratio = Some (fsub 1 q),
                                      success = Some (new_tokens \<le> target_tokens),
                                      message = CompressionCompleted\<rparr>))))"

subsection \<open>\<open>compress_content\<close>\<close>

text \<open>The configuration \<open>dict\<close>: \<open>None\<close> is a missing key, for which \<open>get\<close> has a default.\<close>

record config =
  max_token :: "int option"
  target_modules :: "target_modules option"
  use_tf_idf :: "bool option"
  use_history_compression :: "bool option"
  tf_idf_compression_ratio :: "rat option"
  history_preserve_tokens :: "int option"
  history_compression_ratio :: "rat option"

definition get :: "'a option \<Rightarrow> 'a \<Rightarrow> 'a" where
  "get v d = (case v of Some x \<Rightarrow> x | None \<Rightarrow> d)"

definition compress_content :: "compressor \<Rightarrow> ustr \<Rightarrow> config \<Rightarrow> py_error + ustr" where
  "compress_content self content cfg =
     (let tokens = count_tokens self content;
          max_tokens = get (max_token cfg) 1000;
          modules = get (target_modules cfg) (ModuleList [U ''all''])
      in if tokens \<le> max_tokens then Inr content
         else
           (case (if 0 < tokens then py_truediv max_tokens tokens else Inr 1) of
              Inl e \<Rightarrow> Inl e
            | Inr ratio \<Rightarrow>
                (case (if get (use_tf_idf cfg) False \<and> is_xml_content content
                       then compress_text_by_tf_idf self content
                              (get (tf_idf_compression_ratio cfg) (b64 (6 / 10)))
                       else Inr content) of
                   Inl e \<Rightarrow> Inl e
                 | Inr summarised \<Rightarrow>
                     (case (if get (use_history_compression cfg) False \<and> is_xml_content content
                            then (case compress_sectional_history self summarised
                                         (get (history_preserve_tokens cfg) 500)
                                         (get (history_compression_ratio cfg) (b64 (3 / 10))) of
                                    Inl e \<Rightarrow> Inl e
                                  | Inr history_result \<Rightarrow>
                                      Inr (get (compressed_content history_result) summarised))
                            else Inr summarised) of
                        Inl e \<Rightarrow> Inl e
                      | Inr processed_content \<Rightarrow>
                          (case client self of
                             Some llm \<Rightarrow>
                               (case compress_text self processed_content modules ratio (U ''xml'') of
                                  Inr r \<Rightarrow> Inr (get (compressed_content r) processed_content)
                                | Inl e \<Rightarrow>
                                    compress_text_simple self processed_content modules max_tokens ratio)
                           | None \<Rightarrow>
                               compress_text_simple self processed_content modules max_tokens ratio)))))"

section \<open>The extractive summarizer\<close>

text \<open>
  \<open>preprocess_text\<close> segments the text with other libraries; the model takes its result:
  the language and the sentences.  The vectorizer is a parameter too: it fails, or it
  gives every sentence its score (the row sums of the TF-IDF matrix, one row per sentence).
\<close>

datatype language = ZH | EN

record processed =
  sentences :: "ustr list"
  language :: language

record summary =
  compressed_text :: ustr
  sentences_kept :: nat
  sentences_total :: nat

text \<open>
  \<open>xs.sort(key=k, reverse=True)\<close> is stable: the list is reversed, sorted stably in
  ascending order and reversed again.
\<close>

definition sort_reverse :: "('a \<Rightarrow> 'k::linorder) \<Rightarrow> 'a list \<Rightarrow> 'a list" where
  "sort_reverse k xs = rev (sort_key k (rev xs))"

definition select_indices :: "(nat \<Rightarrow> 'k::linorder) \<Rightarrow> nat \<Rightarrow> int \<Rightarrow> nat list" where
  \<comment> \<open>\<open>sorted([idx for idx, _ in scored[:target]])\<close> after the descending sort of \<open>scored\<close>\<close>
  "select_indices score n target_sentences =
     sort (map fst (take (nat target_sentences)
                      (sort_reverse snd (map (\<lambda>i. (i, score i)) [0..<n]))))"

definition compress_by_ratio ::
  "(ustr \<Rightarrow> py_error + processed) \<Rightarrow> (ustr list \<Rightarrow> py_error + (nat \<Rightarrow> rat))
     \<Rightarrow> ustr \<Rightarrow> rat \<Rightarrow> py_error + summary" where
  "compress_by_ratio preprocess_text tfidf text ratio =
     (case preprocess_text text of
        Inl e \<Rightarrow> Inl e
      | Inr p \<Rightarrow>
          if sentences p = [] then
            Inr \<lparr>compressed_text = text, sentences_kept = 0, sentences_total = 0\<rparr>
          else
            (case py_int (fmul (float_of_int (int (length (sentences p)))) ratio) of
               Inl e \<Rightarrow> Inl e
             | Inr k \<Rightarrow>
                 (let target_sentences = max 1 k;
                      selected_indices =
                        (case tfidf (sentences p) of
                           Inr score \<Rightarrow> select_indices score (length (sentences p)) target_sentences
                         | Inl e \<Rightarrow>
                             select_indices (\<lambda>i. length (sentences p ! i)) (length (sentences p))
                               target_sentences);
                      selected_sentences = map (\<lambda>i. sentences p ! i) selected_indices
                  in Inr \<lparr>compressed_text =
                            (if language p = ZH then join [0x3002] selected_sentences
                             else join (U ''. '') selected_sentences),
                          sentences_kept = length selected_sentences,
                          sentences_total = length (sentences p)\<rparr>)))"

section \<open>Adding content to a section\<close>

text \<open>
  The operating system as \<open>add_content_to_section\<close> meets it.  \<open>files\<close> maps a path to the
  text of the file there (the code points of its bytes, decoded as UTF-8).  What the system
  refuses is a parameter: \<open>mkdir_refused\<close>, \<open>read_refused\<close> and \<open>write_refused\<close> give the
  error of making a directory, of opening a file for reading and of opening it for
  writing, \<open>None\<close> when the call succeeds.  \<open>linesep\<close> is \<open>os.linesep\<close>.
\<close>

type_synonym storage = "ustr \<rightharpoonup> ustr"

record os =
  files :: storage
  mkdir_refused :: "ustr \<Rightarrow> py_error option"
  read_refused :: "ustr \<Rightarrow> py_error option"
  write_refused :: "ustr \<Rightarrow> py_error option"
  linesep :: ustr

text \<open>
  The four functions that write into a section are parameters: each takes the document,
  the content and the role, and returns the new document or raises.
\<close>

type_synonym writer = "ustr \<Rightarrow> ustr \<Rightarrow> ustr \<Rightarrow> py_error + ustr"

record writers =
  add_background_content_raw :: writer
  add_plan_content_raw :: writer
  add_subapp_content_raw :: writer
  add_history_content_raw :: writer

definition user_dir :: "ustr option \<Rightarrow> ustr" where
  \<comment> \<open>\<open>user_{user_id}\<close> under the data directory\<close>
  "user_dir user_id = U ''user_'' @ (case user_id of Some u \<Rightarrow> u | None \<Rightarrow> U ''None'')"

definition context_path :: "ustr option \<Rightarrow> ustr" where
  "context_path user_id = user_dir user_id @ U ''/context.xml''"

definition mkdir :: "os \<Rightarrow> ustr \<Rightarrow> py_error option" where
  \<comment> \<open>\<open>mkdir(parents=True, exist_ok=True)\<close>: a name with a NUL character is a \<open>ValueError\<close>\<close>
  "mkdir sys dir = (if 0 \<in> set dir then Some ValueError else mkdir_refused sys dir)"

text \<open>
  A file opened in text mode with the default \<open>newline=None\<close>: reading turns \<open>CR LF\<close> and a
  lone \<open>CR\<close> into \<open>LF\<close>; writing turns \<open>LF\<close> into \<open>os.linesep\<close> and fails on a code point
  that UTF-8 cannot encode (a surrogate).
\<close>

fun universal_newlines :: "ustr \<Rightarrow> ustr" where
  "universal_newlines [] = []"
| "universal_newlines [c] = (if c = 0x0D then [0x0A] else [c])"
| "universal_newlines (c # d # cs) =
     (if c = 0x0D \<and> d = 0x0A then 0x0A # universal_newlines cs
      else if c = 0x0D then 0x0A # universal_newlines (d # cs)
      else c # universal_newlines (d # cs))"

definition write_newlines :: "ustr \<Rightarrow> ustr \<Rightarrow> ustr" where
  "write_newlines sep s = concat (map (\<lambda>c. if c = 0x0A then sep else [c]) s)"

definition encodable :: "ustr \<Rightarrow> bool" where
  "encodable s = (\<forall>c \<in> set s. c \<le> 0x10FFFF \<and> \<not> (0xD800 \<le> c \<and> c \<le> 0xDFFF))"

definition read_text :: "os \<Rightarrow> ustr \<Rightarrow> py_error + ustr" where
  \<comment> \<open>\<open>open(path, 'r', encoding='utf-8')\<close> and \<open>f.read()\<close>\<close>
  "read_text sys path =
     (case read_refused sys path of
        Some e \<Rightarrow> Inl e
      | None \<Rightarrow>
          (case files sys path of
             None \<Rightarrow> Inl OSError
           | Some stored \<Rightarrow> Inr (universal_newlines stored)))"

definition write_text :: "os \<Rightarrow> ustr \<Rightarrow> ustr \<Rightarrow> (py_error option) \<times> os" where
  \<comment> \<open>\<open>open(path, 'w', encoding='utf-8')\<close> and \<open>f.write(s)\<close>\<close>
  "write_text sys path s =
     (case write_refused sys path of
        Some e \<Rightarrow> (Some e, sys)
      | None \<Rightarrow>
          if encodable s
          then (None, sys\<lparr>files := (files sys)(path \<mapsto> write_newlines (linesep sys) s)\<rparr>)
          else (Some UnicodeEncodeError, sys\<lparr>files := (files sys)(path \<mapsto> [])\<rparr>))"

definition initial_context :: ustr where
  \<comment> \<open>what \<open>ElementTree.write\<close> emits for the four empty sections\<close>
  "initial_context =
     U ''<?xml version='' @ [0x27] @ U ''1.0'' @ [0x27] @ U '' encoding='' @ [0x27] @ U ''utf-8''
       @ [0x27] @ U ''?>'' @ [0x0A]
       @ U ''<context><BACKGROUND /><PLAN /><SUB_APP /><HISTORY /></context>''"

definition initialize_context_file :: "ustr \<Rightarrow> os \<Rightarrow> (py_error option) \<times> os" where
  \<comment> \<open>the tree is written in binary mode, without translation of line ends\<close>
  "initialize_context_file path sys =
     (if files sys path = None then
        (case write_refused sys path of
           Some e \<Rightarrow> (Some e, sys)
         | None \<Rightarrow> (None, sys\<lparr>files := (files sys)(path \<mapsto> initial_context)\<rparr>))
      else (None, sys))"

definition add_content_to_section ::
  "writers \<Rightarrow> ustr \<Rightarrow> ustr \<Rightarrow> ustr \<Rightarrow> ustr option \<Rightarrow> os \<Rightarrow> (py_error + ustr) \<times> os" where
  "add_content_to_section w section content role user_id sys =
     (case mkdir sys (user_dir user_id) of
        Some e \<Rightarrow> (Inl e, sys)
      | None \<Rightarrow>
          (case initialize_context_file (context_path user_id) sys of
             (Some e, sys1) \<Rightarrow> (Inl e, sys1)
           | (None, sys1) \<Rightarrow>
               (case read_text sys1 (context_path user_id) of
                  Inl e \<Rightarrow> (Inl e, sys1)
                | Inr xml_content \<Rightarrow>
                    (case (if section = U ''BACKGROUND''
                           then add_background_content_raw w xml_content content role
                           else if section = U ''PLAN''
                           then add_plan_content_raw w xml_content content role
                           else if section = U ''SUB_APP''
                           then add_subapp_content_raw w xml_content content role
                           else if section = U ''HISTORY''
                           then add_history_content_raw w xml_content content role
                           else Inr xml_content) of
                       Inl e \<Rightarrow> (Inl e, sys1)
                     | Inr new_content \<Rightarrow>
                         (case write_text sys1 (context_path user_id) new_content of
                            (Some e, sys2) \<Rightarrow> (Inl e, sys2)
                          | (None, sys2) \<Rightarrow> (Inr new_content, sys2))))))"

section \<open>Example histories\<close>

definition history_three :: "json list" where
  "history_three =
     map history_item
       [(U ''user'', U ''first question''),
        (U ''assistant'', U ''an answer''),
        (U ''user'', U ''second question'')]"

definition history_five :: "json list" where
  "history_five =
     map history_item
       [(U ''system'', U ''s''), (U ''user'', U ''a''), (U ''assistant'', U ''b''),
        (U ''user'', U ''c''), (U ''assistant'', U ''d'')]"

section \<open>Example segmentations\<close>

definition four_sentences :: "ustr \<Rightarrow> py_error + processed" where
  "four_sentences text =
     Inr \<lparr>sentences = [U ''one'', U ''two words here'', U ''x'', U ''the longest sentence of all''],
          language = EN\<rparr>"

definition one_sentence :: "ustr \<Rightarrow> py_error + processed" where
  "one_sentence text = Inr \<lparr>sentences = [strip text], language = EN\<rparr>"

definition no_vocabulary :: "ustr list \<Rightarrow> py_error + (nat \<Rightarrow> rat)" where
  \<comment> \<open>a vectorizer that fails\<close>
  "no_vocabulary ss = Inl ValueError"

definition tied_scores :: "ustr list \<Rightarrow> py_error + (nat \<Rightarrow> rat)" where
  \<comment> \<open>a vectorizer whose first and last of four scores are equal\<close>
  "tied_scores ss = Inr (\<lambda>i. [3, 1, 2, 3] ! i)"

definition ten_sentences :: "ustr \<Rightarrow> py_error + processed" where
  "ten_sentences text =
     Inr \<lparr>sentences = [U ''a'', U ''bb'', U ''c'', U ''dd'', U ''e'', U ''ff'', U ''g'', U ''hh'',
                       U ''i'', U ''jj''],
          language = EN\<rparr>"

section \<open>Example systems\<close>

definition posix :: "storage \<Rightarrow> os" where
  \<comment> \<open>a system that refuses nothing and separates lines by \<open>LF\<close>\<close>
  "posix fs =
     \<lparr>files = fs, mkdir_refused = (\<lambda>p. None), read_refused = (\<lambda>p. None),
      write_refused = (\<lambda>p. None), linesep = [0x0A]\<rparr>"

definition raising_writers :: writers where
  \<comment> \<open>writers that raise whenever they are called\<close>
  "raising_writers =
     \<lparr>add_background_content_raw = (\<lambda>x c r. Inl TypeError),
      add_plan_content_raw = (\<lambda>x c r. Inl TypeError),
      add_subapp_content_raw = (\<lambda>x c r. Inl TypeError),
      add_history_content_raw = (\<lambda>x c r. Inl TypeError)\<rparr>"

definition crlf_document :: ustr where
  \<comment> \<open>a document whose two lines are separated by \<open>CR LF\<close>\<close>
  "crlf_document = U ''<context>'' @ [0x0D, 0x0A] @ U ''</context>''"

definition lf_document :: ustr where
  "lf_document = U ''<context>'' @ [0x0A] @ U ''</context>''"

section \<open>Example documents\<close>



section \<open>Facts about binary64 rounding\<close>

lemma round_half_even_of_int: "round_half_even (of_int n) = n"
  by (simp add: round_half_even_def)

lemma round_half_even_le:
  assumes "q \<le> of_int m" shows "round_half_even q \<le> m"
proof -
  have f: "\<lfloor>q\<rfloor> \<le> m" using assms by (simp add: floor_le_iff)
  show ?thesis
  proof (cases "q - of_int \<lfloor>q\<rfloor> < 1 / 2")
    case True
    then show ?thesis using f by (simp add: round_half_even_def)
  next
    case False
    then have "of_int \<lfloor>q\<rfloor> < q" by linarith
    then have "of_int \<lfloor>q\<rfloor> < (of_int m :: rat)" using assms by linarith
    then have "\<lfloor>q\<rfloor> < m" by simp
    then show ?thesis by (simp add: round_half_even_def Let_def)
  qed
qed

lemma round_half_even_nonneg:
  assumes "0 \<le> q" shows "0 \<le> round_half_even q"
proof -
  have "0 \<le> \<lfloor>q\<rfloor>" using assms by simp
  then show ?thesis by (simp add: round_half_even_def Let_def)
qed

lemma expo_le:
  assumes "0 < x" shows "2 powi (expo x) \<le> x"
proof (cases "1 \<le> x")
  case True
  define n where "n = nat \<lfloor>x\<rfloor>"
  have n: "0 < n" using True by (simp add: n_def)
  have e: "expo x = int (floorlog 2 n) - 1"
    using True by (simp only: expo_def n_def if_True)
  have "(2::nat) ^ (floorlog 2 n - 1) \<le> n"
    using floorlog_bounds [of n 2] n by simp
  then have "(of_nat ((2::nat) ^ (floorlog 2 n - 1)) :: rat) \<le> of_nat n"
    by (simp only: of_nat_le_iff)
  then have a: "(2::rat) ^ (floorlog 2 n - 1) \<le> of_nat n" by simp
  have b: "(of_nat n :: rat) \<le> x"
    using True by (simp add: n_def)
  have "0 < floorlog 2 n"
    using n by (simp add: floorlog_def)
  then have "int (floorlog 2 n) - 1 = int (floorlog 2 n - 1)" by simp
  then have "(2::rat) powi (expo x) = 2 ^ (floorlog 2 n - 1)"
    by (simp only: e power_int_of_nat)
  then show ?thesis using a b by linarith
next
  case False
  define m where "m = \<lceil>1 / x\<rceil>"
  define n where "n = nat (m - 1)"
  have e: "expo x = - int (floorlog 2 n)"
    using False by (simp only: expo_def n_def m_def if_False)
  have y: "1 < 1 / x" using False assms by (simp add: field_simps)
  then have m: "2 \<le> m" unfolding m_def by (simp add: le_ceiling_iff)
  have n: "0 < n" "int n = m - 1" using m by (simp_all add: n_def)
  have "n < 2 ^ floorlog 2 n"
    using floorlog_bounds [of n 2] n by simp
  then have "int n < int (2 ^ floorlog 2 n)"
    by (simp only: of_nat_less_iff)
  then have "m \<le> 2 ^ floorlog 2 n" using n by simp
  then have "(of_int m :: rat) \<le> of_int (2 ^ floorlog 2 n)"
    by (simp only: of_int_le_iff)
  then have "(of_int m :: rat) \<le> 2 ^ floorlog 2 n" by simp
  moreover have "1 / x \<le> of_int m" unfolding m_def by (rule le_of_int_ceiling)
  ultimately have "1 / x \<le> 2 ^ floorlog 2 n" by linarith
  then have "1 / 2 ^ floorlog 2 n \<le> x"
    using assms by (simp add: field_simps)
  moreover have "(2::rat) powi (expo x) = 1 / 2 ^ floorlog 2 n"
    by (simp only: e power_int_minus_divide power_int_of_nat)
  ultimately show ?thesis by linarith
qed

lemma expo_less:
  assumes "0 < x" "x < 2 powi k" shows "expo x < k"
proof (rule ccontr)
  assume "\<not> expo x < k"
  then have "k \<le> expo x" by simp
  then have "(2::rat) powi k \<le> 2 powi (expo x)"
    by (intro power_int_increasing) simp_all
  with expo_le [OF assms(1)] assms(2) show False by linarith
qed

lemma b64_exact:
  assumes x: "x = of_int m * 2 powi j" and pos: "0 < x" and lt: "x < 2 powi (j + 53)"
    and j: "- 1074 \<le> j"
  shows "b64 x = x"
proof -
  define E where "E = max (expo x) (- 1022) - 52"
  have "expo x < j + 53" using expo_less [OF pos lt] .
  then have E: "E \<le> j" using j pos by (simp add: E_def)
  define d where "d = nat (j - E)"
  have jd: "j = E + int d" using E by (simp add: d_def)
  have "x / 2 powi E = of_int m * (2 powi (E + int d) / 2 powi E)"
    by (simp add: x jd)
  also have "(2::rat) powi (E + int d) / 2 powi E = 2 ^ d"
    by (simp add: power_int_add)
  finally have "x / 2 powi E = of_int (m * 2 ^ d)" by simp
  then have "round_half_even (x / 2 powi E) = m * 2 ^ d"
    by (simp only: round_half_even_of_int)
  moreover have "b64 x = of_int (round_half_even (x / 2 powi E)) * 2 powi E"
    using pos by (simp add: b64_def E_def Let_def)
  ultimately have "b64 x = of_int (m * 2 ^ d) * 2 powi E"
    by (simp only:)
  also have "\<dots> = of_int m * (2 powi E * 2 ^ d)" by simp
  also have "2 powi E * 2 ^ d = (2::rat) powi (E + int d)"
    by (simp add: power_int_add)
  finally show ?thesis by (simp add: x jd)
qed

lemma b64_half:
  assumes "0 \<le> k" "k < 2 ^ 53" shows "b64 (of_int k / 2) = of_int k / 2"
proof (cases "k = 0")
  case True
  then show ?thesis by (simp add: b64_def)
next
  case False
  have "(of_int k :: rat) < of_int (2 ^ 53)" using assms(2) by (simp only: of_int_less_iff)
  then have "(of_int k :: rat) < 2 ^ 53" by simp
  then have "(of_int k :: rat) / 2 < 2 ^ 52" by simp
  moreover have "(2::rat) powi (- 1 + 53) = 2 ^ 52" by simp
  ultimately have lt: "(of_int k :: rat) / 2 < 2 powi (- 1 + 53)" by (simp only:)
  have pos: "(0::rat) < of_int k / 2" using assms False by simp
  have "(2::rat) powi (- 1) = 1 / 2" by simp
  then have eq: "(of_int k :: rat) / 2 = of_int k * 2 powi (- 1)" by (simp only: times_divide_eq_right mult_1_right)
  have j: "(- 1074 :: int) \<le> - 1" by simp
  show ?thesis by (rule b64_exact [OF eq pos lt j])
qed

lemma b64_int:
  assumes "0 \<le> k" "k < 2 ^ 53" shows "b64 (of_int k) = of_int k"
proof (cases "k = 0")
  case True
  then show ?thesis by (simp add: b64_def)
next
  case False
  have "(of_int k :: rat) < of_int (2 ^ 53)" using assms(2) by (simp only: of_int_less_iff)
  then have "(of_int k :: rat) < 2 powi (0 + 53)" by simp
  moreover have "(0::rat) < of_int k" using assms False by simp
  ultimately show ?thesis by (intro b64_exact [where m = k and j = 0]) simp_all
qed

lemma b64_nonneg:
  assumes "0 \<le> x" shows "0 \<le> b64 x"
proof (cases "x = 0")
  case True then show ?thesis by (simp add: b64_def)
next
  case False
  define u :: rat where "u = 2 powi (max (expo \<bar>x\<bar>) (- 1022) - 52)"
  have u: "0 < u" by (simp add: u_def)
  then have "0 \<le> x / u" using assms by simp
  then have "0 \<le> round_half_even (x / u)" by (rule round_half_even_nonneg)
  then have "0 \<le> of_int (round_half_even (x / u)) * u" using u by simp
  then show ?thesis using False by (simp add: b64_def u_def Let_def)
qed

lemma b64_le_int:
  assumes "0 \<le> x" "x \<le> of_int n" "n < 2 ^ 53" shows "b64 x \<le> of_int n"
proof (cases "x = 0")
  case True then show ?thesis using assms by (simp add: b64_def)
next
  case False
  then have pos: "0 < x" using assms by simp
  define E where "E = max (expo x) (- 1022) - 52"
  have "(of_int n :: rat) < of_int (2 ^ 53)" using assms(3) by (simp only: of_int_less_iff)
  then have "x < 2 powi 53" using assms(2) by simp
  then have "expo x < 53" using expo_less [OF pos] by blast
  then have E: "E \<le> 0" using pos by (simp add: E_def)
  define d where "d = nat (- E)"
  have Ed: "E = - int d" using E by (simp add: d_def)
  have u: "(2::rat) powi E = 1 / 2 ^ d" by (simp add: Ed power_int_minus_divide)
  have "x / 2 powi E \<le> of_int n / 2 powi E"
    using assms(2) by (simp add: u)
  also have "of_int n / 2 powi E = (of_int (n * 2 ^ d) :: rat)" by (simp add: u)
  finally have "round_half_even (x / 2 powi E) \<le> n * 2 ^ d" by (rule round_half_even_le)
  then have "(of_int (round_half_even (x / 2 powi E)) :: rat) \<le> of_int (n * 2 ^ d)"
    by (simp only: of_int_le_iff)
  then have "of_int (round_half_even (x / 2 powi E)) * 2 powi E \<le> (of_int n :: rat)"
    by (simp add: u field_simps)
  moreover have "b64 x = of_int (round_half_even (x / 2 powi E)) * 2 powi E"
    using pos by (simp add: b64_def E_def Let_def)
  ultimately show ?thesis by (simp only:)
qed

lemma round_half_even_down:
  assumes "of_int f \<le> q" "q < of_int f + 1 / 2"
  shows "round_half_even q = f"
proof -
  have "\<lfloor>q\<rfloor> = f" using assms by (intro floor_unique) simp_all
  then show ?thesis using assms by (simp add: round_half_even_def)
qed

lemma round_half_even_tie_odd:
  assumes "q = of_int f + 1 / 2" "odd f"
  shows "round_half_even q = f + 1"
proof -
  have "\<lfloor>q\<rfloor> = f" using assms(1) by (intro floor_unique) simp_all
  then show ?thesis using assms by (simp add: round_half_even_def)
qed

lemma floorlog_2_1: "floorlog 2 (Suc 0) = Suc 0"
  by (simp add: floorlog_def)

lemma floorlog_2_6: "floorlog 2 (6::nat) = 3"
proof -
  have "floorlog 2 (6::nat) \<le> 3" by (rule floorlog_leI) simp_all
  moreover have "3 \<le> floorlog 2 (6::nat)" by (rule floorlog_geI) simp_all
  ultimately show ?thesis by simp
qed

lemma expo_seven_tenths: "expo (7 / 10) = - 1"
proof -
  have "\<lceil>10 / 7 :: rat\<rceil> = 2" by (simp add: ceiling_eq_iff)
  then show ?thesis by (simp add: expo_def floorlog_2_1)
qed

lemma b64_seven_tenths: "b64 (7 / 10) = 3152519739159347 / 4503599627370496"
proof -
  have "round_half_even ((7 / 10) / 2 powi (- 53)) = 6305039478318694"
    by (rule round_half_even_down) simp_all
  then show ?thesis by (simp add: b64_def expo_seven_tenths)
qed

lemma expo_ten_times: "expo (15762598695796735 / 2251799813685248) = 2"
proof -
  have "\<lfloor>15762598695796735 / 2251799813685248 :: rat\<rfloor> = 6"
    by (simp add: floor_eq_iff)
  then show ?thesis by (simp add: expo_def floorlog_2_6)
qed

lemma b64_ten_times: "b64 (15762598695796735 / 2251799813685248) = 7"
proof -
  have "round_half_even (15762598695796735 / 2) = 7881299347898367 + 1"
    by (rule round_half_even_tie_odd) simp_all
  then show ?thesis by (simp add: b64_def expo_ten_times)
qed

lemma fmul_ten_seven_tenths: "fmul 10 (b64 (7 / 10)) = 7"
  by (simp add: fmul_def b64_seven_tenths b64_ten_times)

lemma exact_ten_seven_tenths: "\<lfloor>10 * b64 (7 / 10)\<rfloor> = 6"
  by (simp add: b64_seven_tenths floor_eq_iff)

section \<open>Facts about the token estimator\<close>

lemma findall_words_nonempty: "w \<in> set (findall_words ud p s) \<Longrightarrow> w \<noteq> []"
  by (induction ud p s rule: findall_words.induct) (auto split: if_splits)

lemma length_le_sum_lengths:
  "\<forall>w \<in> set ws. w \<noteq> [] \<Longrightarrow> length ws \<le> sum_list (map length ws)"
proof (induction ws)
  case Nil
  show ?case by simp
next
  case (Cons a ws)
  then have "a \<noteq> []" and "length ws \<le> sum_list (map length ws)" by simp_all
  then show ?case by (cases a) simp_all
qed

lemma findall_words_count_le:
  "length (findall_words ud p s) \<le> sum_list (map length (findall_words ud p s))"
  by (rule length_le_sum_lengths) (blast dest: findall_words_nonempty)

lemma cjk_not_letter: "ascii_letter c \<Longrightarrow> \<not> is_cjk c"
  by (auto simp: ascii_letter_def is_cjk_def)

lemma filter_cjk_letters: "filter is_cjk (takeWhile ascii_letter cs) = []"
  by (induction cs) (auto simp: cjk_not_letter)

lemma filter_cjk_dropWhile:
  "length (filter is_cjk (dropWhile ascii_letter cs)) = length (filter is_cjk cs)"
proof -
  have "filter is_cjk cs = filter is_cjk (takeWhile ascii_letter cs @ dropWhile ascii_letter cs)"
    by simp
  also have "\<dots> = filter is_cjk (dropWhile ascii_letter cs)"
    by (simp only: filter_append filter_cjk_letters append_Nil)
  finally show ?thesis by simp
qed

lemma cjk_and_words_disjoint:
  "length (filter is_cjk s) + sum_list (map length (findall_words ud p s)) \<le> length s"
proof (induction ud p s rule: findall_words.induct)
  case (1 ud prev)
  show ?case by simp
next
  case (2 ud prev c cs)
  show ?case
  proof (cases "\<not> prev \<and> ascii_letter c \<and> at_boundary ud (dropWhile ascii_letter cs)")
    case True
    have len: "length cs = length (takeWhile ascii_letter cs) + length (dropWhile ascii_letter cs)"
      by (metis length_append takeWhile_dropWhile_id)
    have "length (filter is_cjk (dropWhile ascii_letter cs))
            + sum_list (map length (findall_words ud True (dropWhile ascii_letter cs)))
          \<le> length (dropWhile ascii_letter cs)"
      using "2.IH"(1) True by simp
    then show ?thesis
      using True len by (simp add: cjk_not_letter filter_cjk_dropWhile)
  next
    case False
    have "length (filter is_cjk cs) + sum_list (map length (findall_words ud (is_word ud c) cs))
          \<le> length cs"
      using "2.IH"(2) False by simp
    then show ?thesis using False by auto
  qed
qed

lemma heuristic_float_exact:
  assumes c: "0 \<le> c" and w: "0 \<le> w" and r: "0 \<le> r" and lt: "3 * c + 2 * w + r < 2 ^ 53"
  shows "trunc (fadd (fadd (fmul (float_of_int c) (3 / 2)) (float_of_int w))
                     (fmul (float_of_int r) (1 / 2)))
         = \<lfloor>(3 / 2) * of_int c + 1 * of_int w + (1 / 2) * of_int r :: rat\<rfloor>"
proof -
  have fc: "float_of_int c = of_int c"
    unfolding float_of_int_def using c w r lt by (intro b64_int) simp_all
  have fw: "float_of_int w = of_int w"
    unfolding float_of_int_def using c w r lt by (intro b64_int) simp_all
  have fo: "float_of_int r = of_int r"
    unfolding float_of_int_def using c w r lt by (intro b64_int) simp_all
  have "b64 (of_int (3 * c) / 2) = of_int (3 * c) / 2"
    using c w r lt by (intro b64_half) simp_all
  moreover have "(of_int c :: rat) * (3 / 2) = of_int (3 * c) / 2" by simp
  ultimately have m1: "fmul (of_int c) (3 / 2) = of_int (3 * c) / 2"
    by (simp only: fmul_def)
  have "b64 (of_int (3 * c + 2 * w) / 2) = of_int (3 * c + 2 * w) / 2"
    using c w r lt by (intro b64_half) simp_all
  moreover have "(of_int (3 * c) / 2 + of_int w :: rat) = of_int (3 * c + 2 * w) / 2" by simp
  ultimately have a1: "fadd (of_int (3 * c) / 2) (of_int w) = of_int (3 * c + 2 * w) / 2"
    by (simp only: fadd_def)
  have "b64 (of_int r / 2) = of_int r / 2"
    using c w r lt by (intro b64_half) simp_all
  moreover have "(of_int r :: rat) * (1 / 2) = of_int r / 2" by simp
  ultimately have m2: "fmul (of_int r) (1 / 2) = of_int r / 2"
    by (simp only: fmul_def)
  have "b64 (of_int (3 * c + 2 * w + r) / 2) = of_int (3 * c + 2 * w + r) / 2"
    using c w r lt by (intro b64_half) simp_all
  moreover have "(of_int (3 * c + 2 * w) / 2 + of_int r / 2 :: rat) = of_int (3 * c + 2 * w + r) / 2"
    by (simp add: add_divide_distrib)
  ultimately have a2: "fadd (of_int (3 * c + 2 * w) / 2) (of_int r / 2) = of_int (3 * c + 2 * w + r) / 2"
    by (simp only: fadd_def)
  have nn: "(0::rat) \<le> of_int (3 * c + 2 * w + r) / 2" using c w r by simp
  have "((3 / 2) * of_int c + 1 * of_int w + (1 / 2) * of_int r :: rat)
        = of_int (3 * c + 2 * w + r) / 2"
    by (simp add: add_divide_distrib)
  then show ?thesis
    using nn by (simp only: fc fw fo m1 a1 m2 a2 trunc_def if_True)
qed


lemma estimate_example:
  "heuristic_estimate_spec is_cjk ([0x4F60, 0x597D] @ U '' hi there'') = 6"
  by (simp add: heuristic_estimate_spec_def is_cjk_def ascii_letter_def at_boundary_def
      is_word_def ascii_digit_def)

lemma count_tokens_no_tokenizer:
  assumes "tokenizer self = None" and "length text < 2 ^ 51"
  shows "count_tokens self text = heuristic_estimate_spec (unicode_alnum self) text
         \<and> 0 \<le> count_tokens self text"
proof -
  define ws where "ws = findall_words (unicode_alnum self) False text"
  define c where "c = int (length (filter is_cjk text))"
  define w where "w = int (length ws)"
  define S where "S = sum_list (map length ws)"
  define r where "r = int (length text) - c - int S"
  have S_int: "\<And>xs :: ustr list. sum_list (map (int \<circ> length) xs) = int (sum_list (map length xs))"
  proof -
    fix xs :: "ustr list"
    show "sum_list (map (int \<circ> length) xs) = int (sum_list (map length xs))"
      by (induction xs) simp_all
  qed
  have "length (filter is_cjk text) + S \<le> length text"
    unfolding S_def ws_def by (rule cjk_and_words_disjoint)
  then have r: "0 \<le> r" and cS: "c + int S \<le> int (length text)"
    unfolding r_def c_def by simp_all
  have wS: "w \<le> int S"
    unfolding w_def S_def ws_def using findall_words_count_le by simp
  have c: "0 \<le> c" and w: "0 \<le> w" by (simp_all add: c_def w_def)
  have "int (length text) < 2 ^ 51" using assms(2) by (metis of_nat_less_iff of_nat_numeral of_nat_power)
  then have lt: "3 * c + 2 * w + r < 2 ^ 53"
    using cS wS r c w unfolding r_def by simp
  have ct: "count_tokens self text
            = trunc (fadd (fadd (fmul (float_of_int c) (3 / 2)) (float_of_int w))
                          (fmul (float_of_int r) (1 / 2)))"
    using assms(1) by (simp add: count_tokens_def Let_def ws_def c_def w_def r_def S_int S_def)
  have sp: "heuristic_estimate_spec (unicode_alnum self) text
            = \<lfloor>(3 / 2) * of_int c + 1 * of_int w + (1 / 2) * of_int r :: rat\<rfloor>"
    by (simp add: heuristic_estimate_spec_def Let_def ws_def c_def w_def r_def S_def)
  have eq: "count_tokens self text = heuristic_estimate_spec (unicode_alnum self) text"
    by (simp only: ct sp heuristic_float_exact [OF c w r lt])
  have "(0::rat) \<le> (3 / 2) * of_int c + 1 * of_int w + (1 / 2) * of_int r"
    using c w r by simp
  then have "0 \<le> heuristic_estimate_spec (unicode_alnum self) text"
    by (simp only: sp zero_le_floor)
  then show ?thesis using eq by simp
qed

text \<open>
  Claim C7.  Without a tokenizer, \<open>count_tokens\<close> returns the floor of
  \<open>1.5 * chinese_char_count + 1.0 * latin_word_count + 0.5 * remaining_char_count\<close>,
  where the remaining characters are those of the text that are neither CJK characters
  nor inside a Latin word, and the result is a non-negative integer.  The float
  arithmetic of the source is exact here: every intermediate value is a multiple of one
  half below \<open>2^52\<close>.  The bound on the length holds for every string a 64-bit
  interpreter can hold.
\<close>

theorem count_tokens_heuristic:
  assumes "tokenizer self = None" and "length text < 2 ^ 51"
  shows "count_tokens self text = heuristic_estimate_spec (unicode_alnum self) text
         \<and> 0 \<le> count_tokens self text"
  using assms by (rule count_tokens_no_tokenizer)

theorem count_tokens_heuristic_witness:
  "tokenizer offline = None
   \<and> length ([0x4F60, 0x597D] @ U '' hi there'') < 2 ^ 51
   \<and> count_tokens offline ([0x4F60, 0x597D] @ U '' hi there'') = 6"
  using count_tokens_heuristic [of offline "[0x4F60, 0x597D] @ U '' hi there''"]
    estimate_example
  by (simp add: offline_def init_def)

section \<open>Facts about the pipeline\<close>

lemma tokenizer_offline: "tokenizer offline = None" "client offline = None"
  "unicode_alnum offline = is_cjk"
  by (simp_all add: offline_def init_def)

lemma count_tokens_offline:
  "length text < 2 ^ 51 \<Longrightarrow> count_tokens offline text = heuristic_estimate_spec is_cjk text"
  using count_tokens_no_tokenizer [of offline "text"] by (simp add: tokenizer_offline)

lemma heuristic_estimate_int:
  "heuristic_estimate_spec ud text
   = (3 * int (length (filter is_cjk text)) + 2 * int (length (findall_words ud False text))
      + (int (length text) - int (length (filter is_cjk text))
         - int (sum_list (map length (findall_words ud False text))))) div 2"
proof -
  have "\<And>c w r :: int. \<lfloor>(3 / 2) * of_int c + 1 * of_int w + (1 / 2) * of_int r :: rat\<rfloor>
                         = (3 * c + 2 * w + r) div 2"
  proof -
    fix c w r :: int
    have "((3 / 2) * of_int c + 1 * of_int w + (1 / 2) * of_int r :: rat)
          = of_int (3 * c + 2 * w + r) / of_int 2"
      by (simp add: add_divide_distrib)
    then show "\<lfloor>(3 / 2) * of_int c + 1 * of_int w + (1 / 2) * of_int r :: rat\<rfloor>
               = (3 * c + 2 * w + r) div 2"
      by (simp only: floor_divide_of_int_eq)
  qed
  from this [of "int (length (filter is_cjk text))" "int (length (findall_words ud False text))"
      "int (length text) - int (length (filter is_cjk text))
         - int (sum_list (map length (findall_words ud False text)))"]
  show ?thesis by (simp add: heuristic_estimate_spec_def Let_def)
qed

lemmas estimate_simps =
  heuristic_estimate_int is_cjk_def ascii_letter_def at_boundary_def is_word_def
  ascii_digit_def

lemma count_tokens_nonneg: "0 \<le> count_tokens self text"
proof (cases "tokenizer self")
  case (Some enc)
  then show ?thesis by (simp add: count_tokens_def)
next
  case None
  define ws where "ws = findall_words (unicode_alnum self) False text"
  have "length (filter is_cjk text) + sum_list (map length ws) \<le> length text"
    unfolding ws_def by (rule cjk_and_words_disjoint)
  moreover have "sum_list (map (int \<circ> length) ws) = int (sum_list (map length ws))"
    by (induction ws) simp_all
  ultimately have r: "0 \<le> int (length text) - int (length (filter is_cjk text))
                        - sum_list (map (int \<circ> length) ws)"
    by simp
  have nn: "\<And>x y. 0 \<le> x \<Longrightarrow> 0 \<le> y \<Longrightarrow> 0 \<le> fmul x y" "\<And>x y. 0 \<le> x \<Longrightarrow> 0 \<le> y \<Longrightarrow> 0 \<le> fadd x y"
    "\<And>n. 0 \<le> n \<Longrightarrow> 0 \<le> float_of_int n"
    by (simp_all add: fmul_def fadd_def float_of_int_def b64_nonneg)
  have "0 \<le> fadd (fadd (fmul (float_of_int (int (length (filter is_cjk text)))) (3 / 2))
                        (float_of_int (int (length ws))))
                  (fmul (float_of_int (int (length text) - int (length (filter is_cjk text))
                            - sum_list (map (int \<circ> length) ws))) (1 / 2))"
    using r by (intro nn) simp_all
  then show ?thesis
    using None by (simp add: count_tokens_def Let_def ws_def trunc_def)
qed

lemma py_truediv_fraction:
  assumes "0 \<le> a" "a \<le> b" "0 < b"
  shows "\<exists>q. py_truediv a b = Inr q"
proof -
  have x: "(0::rat) \<le> of_int a / of_int b" "(of_int a / of_int b :: rat) \<le> of_int 1"
    using assms by simp_all
  have "b64 (of_int a / of_int b) \<le> of_int 1"
    using x by (intro b64_le_int) simp_all
  moreover have "0 \<le> b64 (of_int a / of_int b)"
    using x(1) by (rule b64_nonneg)
  ultimately have "\<not> float_inf (b64 (of_int a / of_int b))"
    by (simp add: float_inf_def)
  then show ?thesis using assms(3) by (simp add: py_truediv_def Let_def)
qed

lemma compress_content_over_budget:
  assumes "client self = None"
    and "get (use_tf_idf cfg) False = False" and "get (use_history_compression cfg) False = False"
    and "0 \<le> get (max_token cfg) 1000" and "get (max_token cfg) 1000 < count_tokens self content"
  shows "compress_content self content cfg = Inl UnboundLocalError"
proof -
  obtain q where q: "py_truediv (get (max_token cfg) 1000) (count_tokens self content) = Inr q"
    using py_truediv_fraction [of "get (max_token cfg) 1000" "count_tokens self content"] assms
    by auto
  show ?thesis
    using assms q by (simp add: compress_content_def Let_def compress_text_simple_def)
qed

lemma tokens_example: "count_tokens offline (U ''alpha beta gamma delta'') = 5"
  by (simp add: count_tokens_offline estimate_simps)

text \<open>
  Claim C1.  The claim says that the fallback stage returns a string for every input,
  also when the estimate exceeds \<open>max_token\<close>.  The code raises there: with no
  client, an over-budget content reaches \<open>_compress_text_simple\<close>, whose only reachable
  statement behind the early return reads a variable that was never assigned.
\<close>

theorem fallback_raises_over_budget:
  "compress_content offline (U ''alpha beta gamma delta'')
     \<lparr>max_token = Some 2, target_modules = None, use_tf_idf = None,
      use_history_compression = None, tf_idf_compression_ratio = None,
      history_preserve_tokens = None, history_compression_ratio = None\<rparr>
   = Inl UnboundLocalError"
  using tokens_example
  by (intro compress_content_over_budget) (simp_all add: tokenizer_offline get_def)

text \<open>
  Claim C6.  When the estimate of the content is at most \<open>max_token\<close> (1000 when the
  key is missing), \<open>compress_content\<close> returns the content itself.  This holds for every
  compressor and configuration: whatever the client, the TF-IDF stage or the history
  stage would do (return or raise), none of them is consulted.
\<close>

theorem compress_content_within_budget:
  assumes "count_tokens self content \<le> get (max_token cfg) 1000"
  shows "compress_content self content cfg = Inr content"
  using assms by (simp add: compress_content_def Let_def)

lemma tokens_hello: "count_tokens offline (U ''hello world'') = 2"
  by (simp add: count_tokens_offline estimate_simps)

theorem compress_content_within_budget_witness:
  "count_tokens offline (U ''hello world'')
     \<le> get (max_token \<lparr>max_token = None, target_modules = None, use_tf_idf = Some True,
                         use_history_compression = Some True, tf_idf_compression_ratio = None,
                         history_preserve_tokens = None, history_compression_ratio = None\<rparr>) 1000
   \<and> compress_content offline (U ''hello world'')
        \<lparr>max_token = None, target_modules = None, use_tf_idf = Some True,
         use_history_compression = Some True, tf_idf_compression_ratio = None,
         history_preserve_tokens = None, history_compression_ratio = None\<rparr>
      = Inr (U ''hello world'')"
  using compress_content_within_budget [of offline "U ''hello world''"
      "\<lparr>max_token = None, target_modules = None, use_tf_idf = Some True,
        use_history_compression = Some True, tf_idf_compression_ratio = None,
        history_preserve_tokens = None, history_compression_ratio = None\<rparr>"]
    tokens_hello
  by (simp add: get_def)

section \<open>Facts about the history compressor\<close>

lemma count_tokens_bound:
  assumes "tokenizer self = None" "length text < 2 ^ 51"
  shows "count_tokens self text < 2 ^ 53"
proof -
  have "count_tokens self text = heuristic_estimate_spec (unicode_alnum self) text"
    using count_tokens_no_tokenizer [OF assms] by simp
  also have "\<dots> = (3 * int (length (filter is_cjk text))
                    + 2 * int (length (findall_words (unicode_alnum self) False text))
                    + (int (length text) - int (length (filter is_cjk text))
                       - int (sum_list (map length (findall_words (unicode_alnum self) False text))))) div 2"
    by (rule heuristic_estimate_int)
  also have "\<dots> \<le> 3 * int (length text)"
    using cjk_and_words_disjoint [of "text" "unicode_alnum self" False]
      findall_words_count_le [of "unicode_alnum self" False "text"]
    by simp
  also have "\<dots> < 2 ^ 53"
  proof -
    have "int (length text) < 2 ^ 51"
      using assms(2) by (metis of_nat_less_iff of_nat_numeral of_nat_power)
    then show ?thesis by simp
  qed
  finally show ?thesis .
qed

lemma py_int_scaled:
  assumes "0 \<le> n" "n < 2 ^ 53" "0 \<le> c" "c \<le> 1"
  shows "py_int (fmul (float_of_int n) c) = Inr \<lfloor>fmul (of_int n) c\<rfloor>"
    and "0 \<le> \<lfloor>fmul (of_int n) c\<rfloor>" and "\<lfloor>fmul (of_int n) c\<rfloor> \<le> n"
proof -
  have f: "float_of_int n = of_int n"
    unfolding float_of_int_def using assms by (intro b64_int) simp_all
  have x0: "(0::rat) \<le> of_int n * c" using assms by simp
  have "of_int n * c \<le> of_int n * 1"
    using assms by (intro mult_left_mono) simp_all
  then have x1: "of_int n * c \<le> of_int n" by simp
  have lo: "0 \<le> fmul (of_int n) c"
    unfolding fmul_def using x0 by (rule b64_nonneg)
  have hi: "fmul (of_int n) c \<le> of_int n"
    unfolding fmul_def using x0 x1 assms(2) by (rule b64_le_int)
  have "(of_int n :: rat) < of_int (2 ^ 53)" using assms(2) by (simp only: of_int_less_iff)
  then have "fmul (of_int n) c < 2 ^ 1024" using hi by simp
  then have "\<not> float_inf (fmul (of_int n) c)" using lo by (simp add: float_inf_def)
  then show "py_int (fmul (float_of_int n) c) = Inr \<lfloor>fmul (of_int n) c\<rfloor>"
    using lo by (simp add: py_int_def trunc_def f)
  show "0 \<le> \<lfloor>fmul (of_int n) c\<rfloor>" using lo by simp
  show "\<lfloor>fmul (of_int n) c\<rfloor> \<le> n" using hi by (simp add: floor_le_iff)
qed

lemma keep_first_floor:
  assumes "length items < 2 ^ 53" "0 \<le> c" "c \<le> 1"
  shows "keep_first items c
         = Inr (take (nat (max 1 \<lfloor>fmul (of_nat (length items)) c\<rfloor>)) items)"
proof -
  have "int (length items) < 2 ^ 53"
    using assms(1) by (metis of_nat_less_iff of_nat_numeral of_nat_power)
  then have "py_int (fmul (float_of_int (int (length items))) c)
             = Inr \<lfloor>fmul (of_int (int (length items))) c\<rfloor>"
    using assms by (intro py_int_scaled) simp_all
  then show ?thesis by (simp add: keep_first_def)
qed

lemma compress_head_fallback:
  assumes "length items < 2 ^ 53" and "0 \<le> c" and "c \<le> 1"
    and "count_tokens self (json_dumps (JArray items)) < 2 ^ 53"
    and "\<forall>llm t. client self = Some llm
            \<longrightarrow> isl (llm (CompressSection (json_dumps (JArray items)) t))"
  shows "compress_head self items c
         = Inr (take (nat (max 1 \<lfloor>fmul (of_nat (length items)) c\<rfloor>)) items)"
proof -
  have t: "py_int (fmul (float_of_int (count_tokens self (json_dumps (JArray items)))) c)
           = Inr \<lfloor>fmul (of_int (count_tokens self (json_dumps (JArray items)))) c\<rfloor>"
    using assms by (intro py_int_scaled) (simp_all add: count_tokens_nonneg)
  show ?thesis
  proof (cases "client self")
    case None
    then show ?thesis
      using t keep_first_floor [OF assms(1,2,3)] by (simp add: compress_head_def Let_def)
  next
    case (Some llm)
    then have "isl (llm (CompressSection (json_dumps (JArray items))
                 \<lfloor>fmul (of_int (count_tokens self (json_dumps (JArray items)))) c\<rfloor>))"
      using assms(5) by blast
    then show ?thesis
      using t Some keep_first_floor [OF assms(1,2,3)]
      by (auto simp: compress_head_def Let_def isl_def)
  qed
qed

lemmas dumps_simps =
  history_item_def strip_def py_space_def dumps_string_def escape_char_def

lemma history_five_dumps:
  \<open>json_dumps (JArray history_five)
   = U ''[{"role": "system", "message": "s"}, {"role": "user", "message": "a"}, {"role": "assistant", "message": "b"}, {"role": "user", "message": "c"}, {"role": "assistant", "message": "d"}]''\<close>
  by (simp add: history_five_def dumps_simps)

lemma half_of_five: "\<lfloor>fmul 5 (1 / 2)\<rfloor> = 2"
proof -
  have "b64 (of_int 5 / 2) = of_int 5 / 2" by (rule b64_half) simp_all
  then have "fmul 5 (1 / 2) = 5 / 2" by (simp add: fmul_def)
  moreover have "\<lfloor>5 / 2 :: rat\<rfloor> = 2" by (simp add: floor_eq_iff)
  ultimately show ?thesis by (simp only:)
qed

lemma ceiling_half_of_five: "\<lceil>5 / 2 :: rat\<rceil> = 3"
  by (simp add: ceiling_eq_iff)

lemma history_five_head:
  "compress_head offline history_five (1 / 2) = Inr (take 2 history_five)"
proof -
  have len: "length history_five = 5" by (simp add: history_five_def)
  have "length (json_dumps (JArray history_five)) < 2 ^ 51"
    unfolding history_five_dumps by simp
  then have "count_tokens offline (json_dumps (JArray history_five)) < 2 ^ 53"
    by (intro count_tokens_bound) (simp_all add: tokenizer_offline)
  then have "compress_head offline history_five (1 / 2)
             = Inr (take (nat (max 1 \<lfloor>fmul (of_nat (length history_five)) (1 / 2)\<rfloor>)) history_five)"
    by (intro compress_head_fallback) (simp_all add: len tokenizer_offline)
  then show ?thesis by (simp add: len half_of_five)
qed

text \<open>
  Claim C3.  The claim says that the fallback keeps the first \<open>max(1, ceil(L * c))\<close>
  entries of the head, three of five for \<open>c = 0.5\<close>.  The source computes
  \<open>max(1, int(len(items_to_compress) * compression_ratio))\<close>, and \<open>int\<close> rounds down: of
  five entries it keeps two.
\<close>

theorem fallback_keeps_ceil_counterexample:
  "compress_head offline history_five (1 / 2) = Inr (take 2 history_five)
   \<and> length (take 2 history_five)
       \<noteq> nat (max 1 \<lceil>of_nat (length history_five) * (1 / 2) :: rat\<rceil>)"
  using history_five_head by (simp add: history_five_def ceiling_half_of_five)

text \<open>
  Claim C3, amended.  Without a client, or when the client fails, a non-empty head of
  length \<open>L\<close> and a ratio \<open>c\<close> in \<open>(0, 1]\<close> leave exactly the first
  \<open>max(1, floor(L * c))\<close> entries of the head, unchanged and in order, where \<open>L * c\<close> is
  the float product the source computes.  The two bounds by \<open>2^53\<close> hold on every
  machine: they say that the length and the token count are exact as floats.
\<close>

theorem fallback_keeps_floor:
  assumes "items \<noteq> []" and "length items < 2 ^ 53" and "0 < c" and "c \<le> 1"
    and "count_tokens self (json_dumps (JArray items)) < 2 ^ 53"
    and "\<forall>llm t. client self = Some llm
            \<longrightarrow> isl (llm (CompressSection (json_dumps (JArray items)) t))"
  shows "compress_head self items c
         = Inr (take (nat (max 1 \<lfloor>fmul (of_nat (length items)) c\<rfloor>)) items)
         \<and> length (take (nat (max 1 \<lfloor>fmul (of_nat (length items)) c\<rfloor>)) items)
           = nat (max 1 \<lfloor>fmul (of_nat (length items)) c\<rfloor>)"
proof -
  have "int (length items) < 2 ^ 53"
    using assms(2) by (metis of_nat_less_iff of_nat_numeral of_nat_power)
  then have "\<lfloor>fmul (of_int (int (length items))) c\<rfloor> \<le> int (length items)"
    using assms by (intro py_int_scaled) simp_all
  moreover have "1 \<le> int (length items)" using assms(1) by (cases items) simp_all
  ultimately have "nat (max 1 \<lfloor>fmul (of_nat (length items)) c\<rfloor>) \<le> length items"
    by simp
  then show ?thesis
    using compress_head_fallback [of items c self] assms by simp
qed

theorem fallback_keeps_floor_witness:
  "history_five \<noteq> [] \<and> length history_five < 2 ^ 53 \<and> (0::rat) < 1 / 2 \<and> (1 / 2 :: rat) \<le> 1
   \<and> client offline = None
   \<and> compress_head offline history_five (1 / 2)
       = Inr (take (nat (max 1 \<lfloor>fmul (of_nat (length history_five)) (1 / 2)\<rfloor>)) history_five)
   \<and> nat (max 1 \<lfloor>fmul (of_nat (length history_five)) (1 / 2)\<rfloor>) = 2"
proof -
  have ne: "history_five \<noteq> []" by (simp add: history_five_def)
  have len: "length history_five = 5" by (simp add: history_five_def)
  have "length (json_dumps (JArray history_five)) < 2 ^ 51"
    unfolding history_five_dumps by simp
  then have tok: "count_tokens offline (json_dumps (JArray history_five)) < 2 ^ 53"
    by (intro count_tokens_bound) (simp_all add: tokenizer_offline)
  have cl: "\<forall>llm t. client offline = Some llm
              \<longrightarrow> isl (llm (CompressSection (json_dumps (JArray history_five)) t))"
    by (simp add: tokenizer_offline)
  have "compress_head offline history_five (1 / 2)
        = Inr (take (nat (max 1 \<lfloor>fmul (of_nat (length history_five)) (1 / 2)\<rfloor>)) history_five)
        \<and> length (take (nat (max 1 \<lfloor>fmul (of_nat (length history_five)) (1 / 2)\<rfloor>)) history_five)
          = nat (max 1 \<lfloor>fmul (of_nat (length history_five)) (1 / 2)\<rfloor>)"
    by (rule fallback_keeps_floor [OF ne _ _ _ tok cl]) (simp_all add: len)
  then show ?thesis
    using ne by (simp add: len half_of_five tokenizer_offline)
qed

lemmas loads_simps =
  json_loads_def skip_ws_def json_ws_def escape_u_def hex4_def hex_val_def unescape_def
  parse_number_def digits_value_def

lemma history_three_dumps:
  \<open>json_dumps (JArray history_three)
   = U ''[{"role": "user", "message": "first question"}, {"role": "assistant", "message": "an answer"}, {"role": "user", "message": "second question"}]''\<close>
  by (simp add: history_three_def dumps_simps)

lemma history_three_loads:
  "json_loads (json_dumps (JArray history_three)) = Inr (JArray history_three)"
  unfolding history_three_dumps
  by (simp add: loads_simps history_three_def dumps_simps)

lemma history_three_tokens: "count_tokens offline (json_dumps (JArray history_three)) = 43"
  unfolding history_three_dumps by (simp add: count_tokens_offline estimate_simps)

lemma history_three_tentative: "tentative_split_index offline 20 history_three = 2"
  by (simp add: tentative_split_index_def history_three_def dumps_simps count_tokens_offline
      estimate_simps)

lemma history_three_final: "final_split_index history_three 2 = 0"
  by (simp add: final_split_index_def history_three_def history_item_def is_user_def upt_rec)

text \<open>
  Claim C2.  The claim says that a user entry at or behind the tentative boundary decides
  the split, and that the backward scan is used only when there is none; in particular
  a user entry at the boundary itself makes the split equal to the boundary.  The source
  tests \<open>final_split_index == tentative_split_index\<close> to see whether the forward scan found
  nothing (its comment: "If no user message found, try looking backward"), which is also
  true when the forward scan found the user entry at the boundary.  The backward scan
  then runs and moves the split to an earlier user entry.  For a history
  \<open>[user, assistant, user]\<close> of which only the last entry fits the budget, the boundary
  is 2, the entry there is a user entry, and the split becomes 0: nothing is compressed.
\<close>

theorem split_at_user_boundary_moves_back:
  "tentative_split_index offline 20 history_three = 2
   \<and> is_user (history_three ! 2)
   \<and> final_split_index history_three 2 = 0
   \<and> compress_json_history offline (json_dumps (JArray history_three)) 20 (b64 (3 / 10))
     = Inr \<lparr>compressed_content = Some (json_dumps (JArray history_three)),
            original_tokens = Some 43, compressed_tokens = Some 43,
            compression_ratio = Some 1, success = None, message = NoItemsToCompress\<rparr>"
proof -
  have u: "is_user (history_three ! 2)"
    by (simp add: history_three_def history_item_def is_user_def)
  have "compress_items offline (json_dumps (JArray history_three)) 20 (b64 (3 / 10)) history_three
        = Inr \<lparr>compressed_content = Some (json_dumps (JArray history_three)),
               original_tokens = Some 43, compressed_tokens = Some 43,
               compression_ratio = Some 1, success = None, message = NoItemsToCompress\<rparr>"
    by (simp only: compress_items_def Let_def history_three_tentative history_three_final
        history_three_tokens take_0 if_True refl simp_thms)
  then have "compress_json_history offline (json_dumps (JArray history_three)) 20 (b64 (3 / 10))
        = Inr \<lparr>compressed_content = Some (json_dumps (JArray history_three)),
               original_tokens = Some 43, compressed_tokens = Some 43,
               compression_ratio = Some 1, success = None, message = NoItemsToCompress\<rparr>"
    by (simp only: compress_json_history_def Let_def history_three_tokens history_three_loads)
       simp
  then show ?thesis
    using u history_three_tentative history_three_final by (simp only: simp_thms)
qed

section \<open>Facts about the extractive summarizer\<close>

lemma select_indices_props:
  fixes score :: "nat \<Rightarrow> 'k::linorder"
  shows "sorted (select_indices score n t)"
    and "distinct (select_indices score n t)"
    and "set (select_indices score n t) \<subseteq> {..<n}"
    and "length (select_indices score n t) = min (nat t) n"
proof -
  define xs where "xs = map (\<lambda>i. (i, score i)) [0..<n]"
  define ys where "ys = sort_reverse snd xs"
  have set_ys: "set ys = set xs" by (simp add: ys_def sort_reverse_def)
  have "distinct xs" by (simp add: xs_def distinct_map inj_on_def)
  then have dist_ys: "distinct ys" by (simp add: ys_def sort_reverse_def)
  have "inj_on fst (set xs)" by (auto simp: xs_def inj_on_def)
  then have d: "distinct (map fst ys)" using dist_ys set_ys by (simp add: distinct_map)
  have s: "set (map fst ys) = {..<n}" by (auto simp: set_ys xs_def image_iff)
  have l: "length ys = n" by (simp add: ys_def sort_reverse_def xs_def)
  have sel: "select_indices score n t = sort (map fst (take (nat t) ys))"
    by (simp add: select_indices_def ys_def xs_def)
  show "sorted (select_indices score n t)" by (simp add: sel)
  have "distinct (take (nat t) (map fst ys))" using d by (rule distinct_take)
  then show "distinct (select_indices score n t)" by (simp add: sel take_map)
  have "set (take (nat t) (map fst ys)) \<subseteq> set (map fst ys)" by (rule set_take_subset)
  then show "set (select_indices score n t) \<subseteq> {..<n}" using s by (simp add: sel take_map)
  show "length (select_indices score n t) = min (nat t) n" by (simp add: sel l min.commute)
qed

lemma nths_indices:
  "nths xs I = map ((!) xs) (filter (\<lambda>i. i \<in> I) [0..<length xs])"
proof -
  have "zip xs [0..<length xs] = map (\<lambda>i. (xs ! i, i)) [0..<length xs]"
    by (rule nth_equalityI) simp_all
  then show ?thesis by (simp add: nths_def filter_map comp_def)
qed

lemma map_nth_subseq:
  assumes "sorted idx" "distinct idx" "set idx \<subseteq> {..<length xs}"
  shows "subseq (map ((!) xs) idx) xs"
proof -
  have "sorted (filter (\<lambda>i. i \<in> set idx) [0..<length xs])"
    by (rule sorted_wrt_filter) simp
  moreover have "distinct (filter (\<lambda>i. i \<in> set idx) [0..<length xs])" by simp
  moreover have "set (filter (\<lambda>i. i \<in> set idx) [0..<length xs]) = set idx"
    using assms(3) by auto
  ultimately have "filter (\<lambda>i. i \<in> set idx) [0..<length xs] = idx"
    using assms(1,2) by (intro sorted_distinct_set_unique)
  then have "map ((!) xs) idx = nths xs (set idx)" by (simp add: nths_indices)
  then show ?thesis by (simp add: subseq_conv_nths) blast
qed

lemma compress_by_ratio_selects:
  assumes pre: "preprocess_text text = Inr p" and ne: "sentences p \<noteq> []"
    and len: "length (sentences p) < 2 ^ 53" and r: "0 < ratio" "ratio \<le> 1"
  defines "k \<equiv> nat (max 1 \<lfloor>fmul (of_nat (length (sentences p))) ratio\<rfloor>)"
  shows "\<exists>idx. compress_by_ratio preprocess_text tfidf text ratio
               = Inr \<lparr>compressed_text =
                        join (if language p = ZH then [0x3002] else U ''. '')
                          (map ((!) (sentences p)) idx),
                      sentences_kept = k, sentences_total = length (sentences p)\<rparr>
             \<and> sorted idx \<and> distinct idx \<and> set idx \<subseteq> {..<length (sentences p)}
             \<and> length idx = k"
proof -
  define n where "n = length (sentences p)"
  have n: "int n < 2 ^ 53"
    using len unfolding n_def by (metis of_nat_less_iff of_nat_numeral of_nat_power)
  have pi: "py_int (fmul (float_of_int (int n)) ratio) = Inr \<lfloor>fmul (of_int (int n)) ratio\<rfloor>"
    and hi: "\<lfloor>fmul (of_int (int n)) ratio\<rfloor> \<le> int n"
    using n r py_int_scaled [of "int n" ratio] by simp_all
  have "1 \<le> int n" using ne unfolding n_def by (cases "sentences p") simp_all
  then have kn: "k \<le> n" using hi unfolding k_def n_def by simp
  define idx where "idx =
     (case tfidf (sentences p) of
        Inr score \<Rightarrow> select_indices score n (max 1 \<lfloor>fmul (of_int (int n)) ratio\<rfloor>)
      | Inl e \<Rightarrow> select_indices (\<lambda>i. length (sentences p ! i)) n
                  (max 1 \<lfloor>fmul (of_int (int n)) ratio\<rfloor>))"
  have props: "sorted idx \<and> distinct idx \<and> set idx \<subseteq> {..<n} \<and> length idx = min k n"
    unfolding idx_def k_def n_def
    by (cases "tfidf (sentences p)") (simp_all add: select_indices_props)
  have "compress_by_ratio preprocess_text tfidf text ratio
        = Inr \<lparr>compressed_text =
                 join (if language p = ZH then [0x3002] else U ''. '')
                   (map ((!) (sentences p)) idx),
               sentences_kept = length idx, sentences_total = n\<rparr>"
    using pre ne pi
    by (cases "tfidf (sentences p)")
       (simp_all add: compress_by_ratio_def Let_def n_def [symmetric] idx_def)
  then show ?thesis using props kn unfolding n_def by (intro exI [of _ idx]) simp
qed

lemma ten_sentences_kept:
  "compress_by_ratio ten_sentences no_vocabulary (U ''any text'') (b64 (7 / 10))
   = Inr \<lparr>compressed_text = U ''a. bb. c. dd. ff. hh. jj'',
          sentences_kept = 7, sentences_total = 10\<rparr>"
proof -
  have "float_of_int 10 = 10"
    using b64_int [of 10] by (simp add: float_of_int_def)
  then have "py_int (fmul (float_of_int 10) (b64 (7 / 10))) = Inr 7"
    by (simp add: fmul_ten_seven_tenths py_int_def float_inf_def trunc_def)
  then show ?thesis
    by (simp add: compress_by_ratio_def ten_sentences_def no_vocabulary_def Let_def
        select_indices_def sort_reverse_def upt_rec)
qed

text \<open>
  Claim C5.  The claim says that exactly \<open>max(1, floor(n * r))\<close> sentences are kept.
  The source computes \<open>int(len(sentences) * compression_ratio)\<close> in float arithmetic,
  and the float product is the exact product rounded to the nearest float, which can
  reach the next integer.  For ten sentences and the ratio \<open>0.7\<close> (the float nearest to
  seven tenths, which is below it) the exact product is below 7 and its floor is 6, the
  float product is exactly 7, and seven sentences are kept.
\<close>

theorem summarizer_exact_floor_counterexample:
  "compress_by_ratio ten_sentences no_vocabulary (U ''any text'') (b64 (7 / 10))
   = Inr \<lparr>compressed_text = U ''a. bb. c. dd. ff. hh. jj'',
          sentences_kept = 7, sentences_total = 10\<rparr>
   \<and> (7::nat) \<noteq> nat (max 1 \<lfloor>of_nat 10 * b64 (7 / 10)\<rfloor>)"
  using ten_sentences_kept by (simp add: exact_ten_seven_tenths)

text \<open>
  Claim C5, amended.  For a text of \<open>n \<ge> 1\<close> sentences and a ratio \<open>r\<close> in \<open>(0, 1]\<close> the
  summarizer keeps exactly \<open>max(1, floor(n * r))\<close> sentences, where \<open>n * r\<close> is the float
  product the source computes (\<open>fmul\<close>), and the kept sentences are those at an ascending
  list of indices, so they stand in their original order.  The statement holds for every
  vectorizer, one that returns scores and one that fails, so it covers the TF-IDF path
  and the length path.
\<close>

theorem summarizer_keeps_floor:
  assumes "preprocess_text text = Inr p" and "sentences p \<noteq> []"
    and "length (sentences p) < 2 ^ 53" and "0 < ratio" and "ratio \<le> 1"
  shows "\<exists>idx. compress_by_ratio preprocess_text tfidf text ratio
               = Inr \<lparr>compressed_text =
                        join (if language p = ZH then [0x3002] else U ''. '')
                          (map ((!) (sentences p)) idx),
                      sentences_kept = nat (max 1 \<lfloor>fmul (of_nat (length (sentences p))) ratio\<rfloor>),
                      sentences_total = length (sentences p)\<rparr>
             \<and> sorted idx \<and> distinct idx \<and> set idx \<subseteq> {..<length (sentences p)}
             \<and> length idx = nat (max 1 \<lfloor>fmul (of_nat (length (sentences p))) ratio\<rfloor>)
             \<and> subseq (map ((!) (sentences p)) idx) (sentences p)"
proof -
  obtain idx where
    "compress_by_ratio preprocess_text tfidf text ratio
     = Inr \<lparr>compressed_text =
              join (if language p = ZH then [0x3002] else U ''. '')
                (map ((!) (sentences p)) idx),
            sentences_kept = nat (max 1 \<lfloor>fmul (of_nat (length (sentences p))) ratio\<rfloor>),
            sentences_total = length (sentences p)\<rparr>"
    and "sorted idx" "distinct idx" "set idx \<subseteq> {..<length (sentences p)}"
    and "length idx = nat (max 1 \<lfloor>fmul (of_nat (length (sentences p))) ratio\<rfloor>)"
    using compress_by_ratio_selects [of preprocess_text "text" p ratio tfidf] assms by blast
  moreover from this have "subseq (map ((!) (sentences p)) idx) (sentences p)"
    by (intro map_nth_subseq)
  ultimately show ?thesis by blast
qed

lemma half_of_four: "\<lfloor>fmul 4 (1 / 2)\<rfloor> = 2"
proof -
  have "b64 (of_int 2) = of_int 2" by (rule b64_int) simp_all
  then show ?thesis by (simp add: fmul_def)
qed

theorem summarizer_keeps_floor_witness:
  "four_sentences (U ''any text'')
     = Inr \<lparr>sentences = [U ''one'', U ''two words here'', U ''x'', U ''the longest sentence of all''],
            language = EN\<rparr>
   \<and> (0::rat) < 1 / 2 \<and> (1 / 2 :: rat) \<le> 1
   \<and> (\<exists>idx. compress_by_ratio four_sentences no_vocabulary (U ''any text'') (1 / 2)
               = Inr \<lparr>compressed_text =
                        join (U ''. '')
                          (map ((!) [U ''one'', U ''two words here'', U ''x'',
                                     U ''the longest sentence of all'']) idx),
                      sentences_kept = 2, sentences_total = 4\<rparr>
             \<and> sorted idx \<and> distinct idx \<and> set idx \<subseteq> {..<4} \<and> length idx = 2)"
proof -
  have four: "Suc (Suc (Suc (Suc 0))) = 4" by simp
  from summarizer_keeps_floor [of four_sentences "U ''any text''"
      "\<lparr>sentences = [U ''one'', U ''two words here'', U ''x'', U ''the longest sentence of all''],
        language = EN\<rparr>" "1 / 2" no_vocabulary]
  obtain idx where
    "compress_by_ratio four_sentences no_vocabulary (U ''any text'') (1 / 2)
     = Inr \<lparr>compressed_text =
              join (U ''. '')
                (map ((!) [U ''one'', U ''two words here'', U ''x'',
                           U ''the longest sentence of all'']) idx),
            sentences_kept = 2, sentences_total = 4\<rparr>"
    and "sorted idx" "distinct idx" "set idx \<subseteq> {..<4}" "length idx = 2"
    by (auto simp: four_sentences_def half_of_four four)
  then show ?thesis by (auto simp: four_sentences_def)
qed

lemma summarizer_length_example:
  "compress_by_ratio four_sentences no_vocabulary (U ''any text'') (1 / 2)
   = Inr \<lparr>compressed_text = U ''two words here. the longest sentence of all'',
          sentences_kept = 2, sentences_total = 4\<rparr>"
proof -
  have "py_int (fmul (float_of_int 4) (1 / 2)) = Inr \<lfloor>fmul (of_int 4) (1 / 2)\<rfloor>"
    by (rule py_int_scaled) simp_all
  then have "py_int (fmul (float_of_int 4) (1 / 2)) = Inr 2"
    by (simp add: half_of_four)
  then show ?thesis
    by (simp add: compress_by_ratio_def four_sentences_def no_vocabulary_def Let_def
        select_indices_def sort_reverse_def upt_rec)
qed

lemma summarizer_tfidf_example:
  "compress_by_ratio four_sentences tied_scores (U ''any text'') (1 / 2)
   = Inr \<lparr>compressed_text = U ''one. the longest sentence of all'',
          sentences_kept = 2, sentences_total = 4\<rparr>"
proof -
  have "py_int (fmul (float_of_int 4) (1 / 2)) = Inr \<lfloor>fmul (of_int 4) (1 / 2)\<rfloor>"
    by (rule py_int_scaled) simp_all
  then have "py_int (fmul (float_of_int 4) (1 / 2)) = Inr 2"
    by (simp add: half_of_four)
  then show ?thesis
    by (simp add: compress_by_ratio_def four_sentences_def tied_scores_def Let_def
        select_indices_def sort_reverse_def upt_rec)
qed

text \<open>
  Claim C8.  A text that segments into one sentence is summarised to that sentence, for
  every ratio in \<open>(0, 1]\<close> and every vectorizer: the target is 1, the only index is 0,
  and joining one sentence adds no separator.
\<close>

theorem single_sentence_unchanged:
  assumes "preprocess_text text = Inr p" and "sentences p = [s]"
    and "0 < ratio" and "ratio \<le> 1"
  shows "compress_by_ratio preprocess_text tfidf text ratio
         = Inr \<lparr>compressed_text = s, sentences_kept = 1, sentences_total = 1\<rparr>"
proof -
  have "\<lfloor>fmul (of_int 1) ratio\<rfloor> \<le> 1"
    using assms(3,4) py_int_scaled(3) [of 1 ratio] by simp
  then have k: "nat (max 1 \<lfloor>fmul (of_nat (length (sentences p))) ratio\<rfloor>) = 1"
    by (simp add: assms(2))
  obtain idx where res:
    "compress_by_ratio preprocess_text tfidf text ratio
     = Inr \<lparr>compressed_text =
              join (if language p = ZH then [0x3002] else U ''. '')
                (map ((!) (sentences p)) idx),
            sentences_kept = nat (max 1 \<lfloor>fmul (of_nat (length (sentences p))) ratio\<rfloor>),
            sentences_total = length (sentences p)\<rparr>"
    and sub: "set idx \<subseteq> {..<length (sentences p)}"
    and len: "length idx = nat (max 1 \<lfloor>fmul (of_nat (length (sentences p))) ratio\<rfloor>)"
    using compress_by_ratio_selects [of preprocess_text "text" p ratio tfidf] assms
    by auto
  from len k obtain i where i: "idx = [i]"
    by (cases idx) auto
  with sub have "i = 0" by (simp add: assms(2))
  then show ?thesis using res i k by (simp add: assms(2))
qed

theorem single_sentence_unchanged_witness:
  "one_sentence (U ''  Only this.  '') = Inr \<lparr>sentences = [U ''Only this.''], language = EN\<rparr>
   \<and> (0::rat) < 1 / 4 \<and> (1 / 4 :: rat) \<le> 1
   \<and> compress_by_ratio one_sentence tied_scores (U ''  Only this.  '') (1 / 4)
     = Inr \<lparr>compressed_text = U ''Only this.'', sentences_kept = 1, sentences_total = 1\<rparr>"
  using single_sentence_unchanged [of one_sentence "U ''  Only this.  ''"
      "\<lparr>sentences = [U ''Only this.''], language = EN\<rparr>" "U ''Only this.''" "1 / 4" tied_scores]
  by (simp add: one_sentence_def strip_def py_space_def)

section \<open>Facts about the JSON round trip\<close>

















section \<open>Facts about adding content\<close>

lemma universal_newlines_no_cr: "0x0D \<notin> set s \<Longrightarrow> universal_newlines s = s"
  by (induction s rule: universal_newlines.induct) auto

lemma write_newlines_lf: "write_newlines [0x0A] s = s"
  by (induction s) (simp_all add: write_newlines_def)

lemma set_universal_newlines: "set (universal_newlines s) \<subseteq> insert 0x0A (set s)"
  by (induction s rule: universal_newlines.induct) auto

lemma encodable_universal_newlines:
  assumes "encodable s"
  shows "encodable (universal_newlines s)"
proof -
  have "\<forall>c \<in> set (universal_newlines s). c = 0x0A \<or> c \<in> set s"
    using set_universal_newlines [of s] by auto
  then show ?thesis
    using assms by (auto simp: encodable_def)
qed

lemma encodable_initial_context: "encodable initial_context"
  by (simp add: encodable_def initial_context_def)

lemma initial_context_no_cr: "universal_newlines initial_context = initial_context"
  by (rule universal_newlines_no_cr) (simp add: initial_context_def)

lemma add_content_other_section:
  assumes sec: "section \<noteq> U ''BACKGROUND''" "section \<noteq> U ''PLAN''" "section \<noteq> U ''SUB_APP''"
      "section \<noteq> U ''HISTORY''"
    and dir: "0 \<notin> set (user_dir user_id)" "mkdir_refused sys (user_dir user_id) = None"
    and acc: "read_refused sys (context_path user_id) = None"
      "write_refused sys (context_path user_id) = None"
    and f: "files sys (context_path user_id) = Some stored"
    and enc: "encodable stored"
  shows "add_content_to_section w section content role user_id sys
         = (Inr (universal_newlines stored),
            sys\<lparr>files := (files sys)(context_path user_id
                     \<mapsto> write_newlines (linesep sys) (universal_newlines stored))\<rparr>)"
  using sec dir acc f encodable_universal_newlines [OF enc]
  by (simp add: add_content_to_section_def mkdir_def initialize_context_file_def read_text_def
      write_text_def)

lemma add_content_other_section_new:
  assumes sec: "section \<noteq> U ''BACKGROUND''" "section \<noteq> U ''PLAN''" "section \<noteq> U ''SUB_APP''"
      "section \<noteq> U ''HISTORY''"
    and dir: "0 \<notin> set (user_dir user_id)" "mkdir_refused sys (user_dir user_id) = None"
    and acc: "read_refused sys (context_path user_id) = None"
      "write_refused sys (context_path user_id) = None"
    and f: "files sys (context_path user_id) = None"
  shows "add_content_to_section w section content role user_id sys
         = (Inr initial_context,
            sys\<lparr>files := (files sys)(context_path user_id
                     \<mapsto> write_newlines (linesep sys) initial_context)\<rparr>)"
  using sec dir acc f encodable_initial_context
  by (simp add: add_content_to_section_def mkdir_def initialize_context_file_def read_text_def
      write_text_def initial_context_no_cr)

lemma files_update_same:
  assumes "files sys p = Some s"
  shows "sys\<lparr>files := (files sys)(p \<mapsto> s)\<rparr> = sys"
proof -
  have "(files sys)(p \<mapsto> s) = files sys"
    using assms by (simp add: fun_upd_idem)
  then show ?thesis
    by simp
qed

lemma add_content_nul_user:
  assumes "0 \<in> set u"
  shows "add_content_to_section w section content role (Some u) sys = (Inl ValueError, sys)"
  using assms by (simp add: add_content_to_section_def mkdir_def user_dir_def)

text \<open>
  Claim C10.  For a section name other than the four known ones the existing document is
  not always returned and rewritten unchanged, and an error can be raised.  The file is
  read in text mode, so a document stored with \<open>CR LF\<close> line ends (the history writer puts
  the content it is given into the document as it is) comes back with \<open>LF\<close> line ends, and
  that changed text is what is returned and written to the file.  A user identifier with
  a NUL character makes the creation of the user directory raise \<open>ValueError\<close>.
\<close>

theorem add_content_other_section_counterexample:
  "add_content_to_section raising_writers (U ''NOTES'') (U ''remember this'') (U ''user'')
     (Some (U ''u1'')) (posix [context_path (Some (U ''u1'')) \<mapsto> crlf_document])
   = (Inr lf_document, posix [context_path (Some (U ''u1'')) \<mapsto> lf_document])
   \<and> lf_document \<noteq> crlf_document
   \<and> posix [context_path (Some (U ''u1'')) \<mapsto> lf_document]
       \<noteq> posix [context_path (Some (U ''u1'')) \<mapsto> crlf_document]
   \<and> add_content_to_section raising_writers (U ''NOTES'') (U ''remember this'') (U ''user'')
       (Some [0x75, 0]) (posix Map.empty)
     = (Inl ValueError, posix Map.empty)"
proof (intro conjI)
  show "add_content_to_section raising_writers (U ''NOTES'') (U ''remember this'') (U ''user'')
     (Some (U ''u1'')) (posix [context_path (Some (U ''u1'')) \<mapsto> crlf_document])
   = (Inr lf_document, posix [context_path (Some (U ''u1'')) \<mapsto> lf_document])"
    using add_content_other_section [of "U ''NOTES''" "Some (U ''u1'')"
        "posix [context_path (Some (U ''u1'')) \<mapsto> crlf_document]" crlf_document raising_writers
        "U ''remember this''" "U ''user''"]
    by (simp add: posix_def crlf_document_def lf_document_def user_dir_def encodable_def
        write_newlines_def)
  show "lf_document \<noteq> crlf_document"
    by (simp add: crlf_document_def lf_document_def)
  then show "posix [context_path (Some (U ''u1'')) \<mapsto> lf_document]
       \<noteq> posix [context_path (Some (U ''u1'')) \<mapsto> crlf_document]"
    by (auto simp: posix_def dest: map_upd_eqD1)
  show "add_content_to_section raising_writers (U ''NOTES'') (U ''remember this'') (U ''user'')
       (Some [0x75, 0]) (posix Map.empty)
     = (Inl ValueError, posix Map.empty)"
    by (rule add_content_nul_user) simp
qed

text \<open>
  Claim C10, amended.  For a section name other than the four known ones no writer is
  called and no entry is appended.  When the user directory can be made (its name has no
  NUL character and the system does not refuse it), the file can be opened for reading and
  for writing, and its text can be encoded, nothing is raised: the document is returned as
  text mode reads it, with \<open>CR LF\<close> and lone \<open>CR\<close> turned into \<open>LF\<close>, and that text is written
  back with \<open>LF\<close> turned into the line separator of the system.  So a document without \<open>CR\<close>
  is returned unchanged, and where the line separator is \<open>LF\<close> the file does not change
  either.  When the file is missing, the initial document is created, returned and
  written back.
\<close>

theorem add_content_unknown_section:
  assumes "section \<noteq> U ''BACKGROUND''" "section \<noteq> U ''PLAN''" "section \<noteq> U ''SUB_APP''"
    "section \<noteq> U ''HISTORY''"
    and "0 \<notin> set (user_dir user_id)" "mkdir_refused sys (user_dir user_id) = None"
    and "read_refused sys (context_path user_id) = None"
    and "write_refused sys (context_path user_id) = None"
  shows "(files sys (context_path user_id) = Some stored \<and> encodable stored \<longrightarrow>
            add_content_to_section w section content role user_id sys
            = (Inr (universal_newlines stored),
               sys\<lparr>files := (files sys)(context_path user_id
                        \<mapsto> write_newlines (linesep sys) (universal_newlines stored))\<rparr>))
         \<and> (files sys (context_path user_id) = Some stored \<and> encodable stored
              \<and> 0x0D \<notin> set stored \<and> linesep sys = [0x0A] \<longrightarrow>
            add_content_to_section w section content role user_id sys = (Inr stored, sys))
         \<and> (files sys (context_path user_id) = None \<longrightarrow>
            add_content_to_section w section content role user_id sys
            = (Inr initial_context,
               sys\<lparr>files := (files sys)(context_path user_id
                        \<mapsto> write_newlines (linesep sys) initial_context)\<rparr>))"
proof (intro conjI impI)
  assume "files sys (context_path user_id) = Some stored \<and> encodable stored"
  then show "add_content_to_section w section content role user_id sys
            = (Inr (universal_newlines stored),
               sys\<lparr>files := (files sys)(context_path user_id
                        \<mapsto> write_newlines (linesep sys) (universal_newlines stored))\<rparr>)"
    using assms add_content_other_section [of "section" user_id sys stored w content role]
    by simp
next
  assume a: "files sys (context_path user_id) = Some stored \<and> encodable stored
              \<and> 0x0D \<notin> set stored \<and> linesep sys = [0x0A]"
  then have "add_content_to_section w section content role user_id sys
            = (Inr (universal_newlines stored),
               sys\<lparr>files := (files sys)(context_path user_id
                        \<mapsto> write_newlines (linesep sys) (universal_newlines stored))\<rparr>)"
    using assms add_content_other_section [of "section" user_id sys stored w content role]
    by simp
  moreover have "universal_newlines stored = stored"
    using a by (simp add: universal_newlines_no_cr)
  moreover have "write_newlines (linesep sys) stored = stored"
    using a by (simp add: write_newlines_lf)
  moreover have "sys\<lparr>files := (files sys)(context_path user_id \<mapsto> stored)\<rparr> = sys"
    using a by (simp add: files_update_same)
  ultimately show "add_content_to_section w section content role user_id sys = (Inr stored, sys)"
    by simp
next
  assume "files sys (context_path user_id) = None"
  then show "add_content_to_section w section content role user_id sys
            = (Inr initial_context,
               sys\<lparr>files := (files sys)(context_path user_id
                        \<mapsto> write_newlines (linesep sys) initial_context)\<rparr>)"
    using assms add_content_other_section_new [of "section" user_id sys w content role]
    by simp
qed

theorem add_content_unknown_section_witness:
  "U ''NOTES'' \<noteq> U ''BACKGROUND'' \<and> U ''NOTES'' \<noteq> U ''PLAN'' \<and> U ''NOTES'' \<noteq> U ''SUB_APP''
   \<and> U ''NOTES'' \<noteq> U ''HISTORY''
   \<and> 0 \<notin> set (user_dir (Some (U ''u1'')))
   \<and> mkdir_refused (posix [context_path (Some (U ''u1'')) \<mapsto> lf_document])
       (user_dir (Some (U ''u1''))) = None
   \<and> read_refused (posix [context_path (Some (U ''u1'')) \<mapsto> lf_document])
       (context_path (Some (U ''u1''))) = None
   \<and> write_refused (posix [context_path (Some (U ''u1'')) \<mapsto> lf_document])
       (context_path (Some (U ''u1''))) = None
   \<and> files (posix [context_path (Some (U ''u1'')) \<mapsto> lf_document])
       (context_path (Some (U ''u1''))) = Some lf_document
   \<and> encodable lf_document \<and> 0x0D \<notin> set lf_document
   \<and> linesep (posix [context_path (Some (U ''u1'')) \<mapsto> lf_document]) = [0x0A]
   \<and> add_content_to_section raising_writers (U ''NOTES'') (U ''remember this'') (U ''user'')
        (Some (U ''u1'')) (posix [context_path (Some (U ''u1'')) \<mapsto> lf_document])
      = (Inr lf_document, posix [context_path (Some (U ''u1'')) \<mapsto> lf_document])"
  using add_content_unknown_section [of "U ''NOTES''" "Some (U ''u1'')"
      "posix [context_path (Some (U ''u1'')) \<mapsto> lf_document]" lf_document raising_writers
      "U ''remember this''" "U ''user''"]
  by (simp add: posix_def lf_document_def user_dir_def encodable_def write_newlines_lf)

section \<open>Facts about the history of a document\<close>


































end
